theory Spec2Isabelle
  imports Main "HOL-Library.Sublist" "HOL-Library.AList" "HOL-Library.Code_Target_Nat"
begin

section \<open>Python values used by \<open>run_visualizer.py\<close>\<close>

text \<open>
  Strings are lists of characters; a character stands for a code point below 256, and the
  string operations below are Python's \<open>str\<close> methods on such code points.
  Exceptions are values: a function that can raise returns \<open>py_exn + 'a\<close>.
\<close>

datatype py_exn = ValueError | TypeError | IndexError | OtherError

definition code_point :: "char \<Rightarrow> nat" where
  "code_point c = of_char c"

definition between :: "char \<Rightarrow> char \<Rightarrow> char \<Rightarrow> bool" where
  "between lo hi c = (code_point lo \<le> code_point c \<and> code_point c \<le> code_point hi)"

definition is_digit :: "char \<Rightarrow> bool" where
  "is_digit c = between CHR ''0'' CHR ''9'' c"

definition digit_val :: "char \<Rightarrow> nat" where
  "digit_val c = code_point c - 48"

definition digit_char :: "nat \<Rightarrow> char" where
  "digit_char n = char_of (48 + n)"

text \<open>\<open>str.isspace\<close> on one code point below 256: U+0009..U+000D, U+001C..U+0020, U+0085, U+00A0.\<close>

definition is_space :: "char \<Rightarrow> bool" where
  "is_space c = (let n = code_point c in
     (9 \<le> n \<and> n \<le> 13) \<or> (28 \<le> n \<and> n \<le> 32) \<or> n = 133 \<or> n = 160)"

text \<open>\<open>str.lower\<close>: A..Z and the upper-case letters of U+00C0..U+00DE (not U+00D7) move up by 32.\<close>

definition lower_char :: "char \<Rightarrow> char" where
  "lower_char c = (let n = code_point c in
     if (65 \<le> n \<and> n \<le> 90) \<or> (192 \<le> n \<and> n \<le> 222 \<and> n \<noteq> 215) then char_of (n + 32) else c)"

definition py_lower :: "string \<Rightarrow> string" where
  "py_lower s = map lower_char s"

text \<open>\<open>str.strip()\<close> with no argument: white space is dropped at both ends.\<close>

definition py_strip :: "string \<Rightarrow> string" where
  "py_strip s = rev (dropWhile is_space (rev (dropWhile is_space s)))"

text \<open>\<open>s.replace(old, new)\<close>: occurrences of \<open>old\<close> are replaced from the left, without overlap.\<close>

function py_replace :: "string \<Rightarrow> string \<Rightarrow> string \<Rightarrow> string" where
  "py_replace old new [] = (if old = [] then new else [])"
| "py_replace old new (c # cs) =
     (if old = [] then new @ c # py_replace old new cs
      else if prefix old (c # cs) then new @ py_replace old new (drop (length old) (c # cs))
      else c # py_replace old new cs)"
  by pat_completeness auto
termination
  by (relation "measure (\<lambda>(old, new, s). length s)") auto

text \<open>\<open>pat in s\<close> on strings: \<open>pat\<close> occurs somewhere in \<open>s\<close>.\<close>

fun py_in :: "string \<Rightarrow> string \<Rightarrow> bool" where
  "py_in pat [] = (pat = [])"
| "py_in pat (c # cs) = (prefix pat (c # cs) \<or> py_in pat cs)"

text \<open>\<open>s.split('_')[0]\<close>: the text before the first underscore, all of \<open>s\<close> when there is none.\<close>

definition split_first :: "char \<Rightarrow> string \<Rightarrow> string" where
  "split_first sep s = takeWhile (\<lambda>c. c \<noteq> sep) s"

text \<open>The decimal text of a number, and the format specification \<open>02d\<close>.\<close>

fun py_str_nat :: "nat \<Rightarrow> string" where
  "py_str_nat n = (if n < 10 then [digit_char n] else py_str_nat (n div 10) @ [digit_char (n mod 10)])"

declare py_str_nat.simps [simp del]

definition fmt02d :: "nat \<Rightarrow> string" where
  "fmt02d n = (let s = py_str_nat n in replicate (2 - length s) CHR ''0'' @ s)"

section \<open>\<open>datetime.strptime\<close>\<close>

text \<open>
  \<open>strptime\<close> turns the format into a regular expression, one group per directive, matches
  it at the start of the text with the backtracking of \<open>re.match\<close>, and raises
  \<open>ValueError\<close> when nothing matches or when the first match leaves text over.
  Each directive is modelled by the list of its possible matches, in the order the
  expression tries its alternatives; a match is the value read and the text that is left.
\<close>

fun two_chars :: "(char \<Rightarrow> bool) \<Rightarrow> (char \<Rightarrow> bool) \<Rightarrow> string \<Rightarrow> (nat \<times> string) list" where
  "two_chars p q (a # b # r) = (if p a \<and> q b then [(10 * digit_val a + digit_val b, r)] else [])"
| "two_chars p q r = []"

fun one_char :: "(char \<Rightarrow> bool) \<Rightarrow> string \<Rightarrow> (nat \<times> string) list" where
  "one_char p (a # r) = (if p a then [(digit_val a, r)] else [])"
| "one_char p [] = []"

text \<open>\<open>%H\<close> is \<open>2[0-3]|[0-1]\d|\d\<close>, \<open>%M\<close> is \<open>[0-5]\d|\d\<close>, \<open>%S\<close> is \<open>6[0-1]|[0-5]\d|\d\<close>.\<close>

definition rx_H :: "string \<Rightarrow> (nat \<times> string) list" where
  "rx_H s = two_chars (\<lambda>c. c = CHR ''2'') (between CHR ''0'' CHR ''3'') s
          @ two_chars (between CHR ''0'' CHR ''1'') is_digit s
          @ one_char is_digit s"

definition rx_M :: "string \<Rightarrow> (nat \<times> string) list" where
  "rx_M s = two_chars (between CHR ''0'' CHR ''5'') is_digit s @ one_char is_digit s"

definition rx_S :: "string \<Rightarrow> (nat \<times> string) list" where
  "rx_S s = two_chars (\<lambda>c. c = CHR ''6'') (between CHR ''0'' CHR ''1'') s
          @ two_chars (between CHR ''0'' CHR ''5'') is_digit s
          @ one_char is_digit s"

text \<open>\<open>%Y\<close> is \<open>\d\d\d\d\<close>, \<open>%m\<close> is \<open>1[0-2]|0[1-9]|[1-9]\<close>,
  \<open>%d\<close> is \<open>3[0-1]|[1-2]\d|0[1-9]|[1-9]| [1-9]\<close> (the last alternative starts with a blank).\<close>

fun rx_Y :: "string \<Rightarrow> (nat \<times> string) list" where
  "rx_Y (a # b # c # d # r) =
     (if is_digit a \<and> is_digit b \<and> is_digit c \<and> is_digit d
      then [(1000 * digit_val a + 100 * digit_val b + 10 * digit_val c + digit_val d, r)] else [])"
| "rx_Y r = []"

definition rx_m :: "string \<Rightarrow> (nat \<times> string) list" where
  "rx_m s = two_chars (\<lambda>c. c = CHR ''1'') (between CHR ''0'' CHR ''2'') s
          @ two_chars (\<lambda>c. c = CHR ''0'') (between CHR ''1'' CHR ''9'') s
          @ one_char (between CHR ''1'' CHR ''9'') s"

fun blank_then :: "(char \<Rightarrow> bool) \<Rightarrow> string \<Rightarrow> (nat \<times> string) list" where
  "blank_then q (a # b # r) = (if a = CHR '' '' \<and> q b then [(digit_val b, r)] else [])"
| "blank_then q r = []"

definition rx_d :: "string \<Rightarrow> (nat \<times> string) list" where
  "rx_d s = two_chars (\<lambda>c. c = CHR ''3'') (between CHR ''0'' CHR ''1'') s
          @ two_chars (between CHR ''1'' CHR ''2'') is_digit s
          @ two_chars (\<lambda>c. c = CHR ''0'') (between CHR ''1'' CHR ''9'') s
          @ one_char (between CHR ''1'' CHR ''9'') s
          @ blank_then (between CHR ''1'' CHR ''9'') s"

text \<open>A literal character of the format, and \<open>\s+\<close> (greedy: the longest run first).\<close>

fun rx_lit :: "char \<Rightarrow> string \<Rightarrow> string list" where
  "rx_lit c (a # r) = (if a = c then [r] else [])"
| "rx_lit c [] = []"

fun rx_ws :: "string \<Rightarrow> string list" where
  "rx_ws (a # r) = (if is_space a then rx_ws r @ [r] else [])"
| "rx_ws [] = []"

text \<open>\<open>datetime.date(year, month, day)\<close> raises \<open>ValueError\<close> outside the calendar.\<close>

definition is_leap :: "nat \<Rightarrow> bool" where
  "is_leap y = (y mod 4 = 0 \<and> (y mod 100 \<noteq> 0 \<or> y mod 400 = 0))"

definition days_in_month :: "nat \<Rightarrow> nat \<Rightarrow> nat" where
  "days_in_month y m =
     (if m = 2 then (if is_leap y then 29 else 28)
      else if m = 4 \<or> m = 6 \<or> m = 9 \<or> m = 11 then 30 else 31)"

definition valid_date :: "nat \<Rightarrow> nat \<Rightarrow> nat \<Rightarrow> bool" where
  "valid_date y m d = (1 \<le> y \<and> y \<le> 9999 \<and> 1 \<le> m \<and> m \<le> 12 \<and> 1 \<le> d \<and> d \<le> days_in_month y m)"

text \<open>The three formats of the program: \<open>%H:%M:%S\<close>, \<open>%H:%M\<close> and \<open>%Y-%m-%d\<close>
  (each group of matches is in the order \<open>re.match\<close> finds them).\<close>

definition match_HMS :: "string \<Rightarrow> ((nat \<times> nat \<times> nat) \<times> string) list" where
  "match_HMS s =
     [((h, m, sec), r5).
        (h, r1) \<leftarrow> rx_H s, r2 \<leftarrow> rx_lit CHR '':'' r1,
        (m, r3) \<leftarrow> rx_M r2, r4 \<leftarrow> rx_lit CHR '':'' r3,
        (sec, r5) \<leftarrow> rx_S r4]"

definition match_HM :: "string \<Rightarrow> ((nat \<times> nat) \<times> string) list" where
  "match_HM s = [((h, m), r3). (h, r1) \<leftarrow> rx_H s, r2 \<leftarrow> rx_lit CHR '':'' r1, (m, r3) \<leftarrow> rx_M r2]"

definition match_Ymd :: "string \<Rightarrow> ((nat \<times> nat \<times> nat) \<times> string) list" where
  "match_Ymd s =
     [((y, m, d), r5).
        (y, r1) \<leftarrow> rx_Y s, r2 \<leftarrow> rx_lit CHR ''-'' r1,
        (m, r3) \<leftarrow> rx_m r2, r4 \<leftarrow> rx_lit CHR ''-'' r3,
        (d, r5) \<leftarrow> rx_d r4]"

text \<open>\<open>datetime.strptime(s, '%H:%M:%S').time()\<close>: the datetime constructor refuses the
  seconds 60 and 61 that the expression lets through.\<close>

definition strptime_HMS :: "string \<Rightarrow> py_exn + (nat \<times> nat \<times> nat)" where
  "strptime_HMS s =
     (case match_HMS s of
        [] \<Rightarrow> Inl ValueError
      | ((h, m, sec), r) # _ \<Rightarrow>
          if r \<noteq> [] then Inl ValueError
          else if 59 < sec then Inl ValueError
          else Inr (h, m, sec))"

definition strptime_HM :: "string \<Rightarrow> py_exn + (nat \<times> nat \<times> nat)" where
  "strptime_HM s =
     (case match_HM s of
        [] \<Rightarrow> Inl ValueError
      | ((h, m), r) # _ \<Rightarrow> if r \<noteq> [] then Inl ValueError else Inr (h, m, 0))"

definition strptime_Ymd :: "string \<Rightarrow> py_exn + (nat \<times> nat \<times> nat)" where
  "strptime_Ymd s =
     (case match_Ymd s of
        [] \<Rightarrow> Inl ValueError
      | ((y, m, d), r) # _ \<Rightarrow>
          if r \<noteq> [] then Inl ValueError
          else if \<not> valid_date y m d then Inl ValueError
          else Inr (y, m, d))"

text \<open>A naive \<open>datetime\<close>, and the format \<open>%Y%m%d %H:%M:%S\<close> that builds one
  (the blank of the format is \<open>\s+\<close>).\<close>

record civil =
  c_year :: nat
  c_month :: nat
  c_day :: nat
  c_hour :: nat
  c_minute :: nat
  c_second :: nat

definition match_compact :: "string \<Rightarrow> (civil \<times> string) list" where
  "match_compact s =
     [(\<lparr>c_year = y, c_month = mo, c_day = d, c_hour = h, c_minute = mi, c_second = se\<rparr>, r5).
        (y, r1) \<leftarrow> rx_Y s, (mo, r2) \<leftarrow> rx_m r1, (d, r3) \<leftarrow> rx_d r2, r4 \<leftarrow> rx_ws r3,
        ((h, mi, se), r5) \<leftarrow> match_HMS r4]"

definition strptime_compact :: "string \<Rightarrow> py_exn + civil" where
  "strptime_compact s =
     (case match_compact s of
        [] \<Rightarrow> Inl ValueError
      | (dt, r) # _ \<Rightarrow>
          if r \<noteq> [] then Inl ValueError
          else if \<not> valid_date (c_year dt) (c_month dt) (c_day dt) \<or> 59 < c_second dt then Inl ValueError
          else Inr dt)"

section \<open>\<open>parse_time\<close>, the helper of \<open>load_music_schedule\<close>\<close>

text \<open>
  \<open>pd.Timestamp(dt_naive, tz='US/Eastern')\<close> is the parameter \<open>eastern\<close>: the time-zone
  table is not part of the program. It gives the instant of a wall-clock time, or the
  exception the library raises for it.
\<close>

definition adjust_hour :: "bool \<Rightarrow> nat \<Rightarrow> nat" where
  "adjust_hour is_pm hour = (if is_pm \<and> 1 \<le> hour \<and> hour \<le> 11 then hour + 12 else hour)"

definition cleaned_time :: "string \<Rightarrow> string" where
  "cleaned_time time_str = py_strip (py_replace ''pm'' [] (py_replace ''am'' [] (py_lower time_str)))"

definition time_obj :: "string \<Rightarrow> py_exn + (nat \<times> nat \<times> nat)" where
  "time_obj cleaned_time_str =
     (case strptime_HMS cleaned_time_str of
        Inr t \<Rightarrow> Inr t
      | Inl ValueError \<Rightarrow> strptime_HM cleaned_time_str
      | Inl e \<Rightarrow> Inl e)"

definition parse_time :: "(civil \<Rightarrow> py_exn + 't) \<Rightarrow> string \<Rightarrow> string \<Rightarrow> bool \<Rightarrow> py_exn + 't" where
  "parse_time eastern time_str date_str is_pm =
     (case time_obj (cleaned_time time_str) of
        Inl e \<Rightarrow> Inl e
      | Inr (h, mi, se) \<Rightarrow>
          (let hour = adjust_hour is_pm h;
               full_datetime_str = date_str @ '' '' @ fmt02d hour @ '':'' @ fmt02d mi @ '':'' @ fmt02d se
           in case strptime_compact full_datetime_str of
                Inl e \<Rightarrow> Inl e
              | Inr dt_naive \<Rightarrow> eastern dt_naive))"

section \<open>The schedule: \<open>load_music_schedule\<close>\<close>

text \<open>
  \<open>pd.read_csv\<close> is a library: a file is given by what the two reads of the program return
  for it. A cell of the schedule table is the value pandas holds there: NaN for an empty
  field, a text in a column of texts, an integer in a column of whole numbers without an
  empty field, a float in a column of numbers with a fraction or with an empty field,
  a truth value. A float that is a whole number of fewer than 17 digits is
  \<open>Float_whole\<close>; any other float is given by the text \<open>repr\<close> returns for it.
  So the scores 8, 9 and an empty field come as \<open>Float_whole 8\<close>, \<open>Float_whole 9\<close>
  and \<open>NaN\<close>.
  For a channel file, \<open>df_series\<close> is the outcome of lines 87 to 90: the column
  \<open>est_time\<close> (\<open>None\<close> for NaT) beside the values of the last column, or the exception.
\<close>

datatype cell = NaN | Text string | Int64 int | Float_whole int | Float_repr string | Truth bool

record sched_row =
  time_str :: cell
  song_artist :: cell
  score :: cell
  observation :: cell

record ('t, 'v) dataframe =
  df_columns :: "string list"
  df_series :: "py_exn + ('t option \<times> 'v) list"

record ('t, 'v) csv_file =
  as_channel :: "py_exn + ('t, 'v) dataframe"
  as_schedule :: "py_exn + sched_row list"

text \<open>\<open>df.dropna(how='all')\<close>: the rows whose four cells are all NaN go.\<close>

definition all_na :: "sched_row \<Rightarrow> bool" where
  "all_na row = (time_str row = NaN \<and> song_artist row = NaN \<and> score row = NaN \<and> observation row = NaN)"

definition dropna :: "sched_row list \<Rightarrow> sched_row list" where
  "dropna table = filter (\<lambda>row. \<not> all_na row) table"

text \<open>\<open>str\<close> of a cell: \<open>str(8)\<close> is \<open>8\<close> and \<open>str(8.0)\<close> is \<open>8.0\<close>.\<close>

definition py_str_int :: "int \<Rightarrow> string" where
  "py_str_int n = (if n < 0 then ''-'' @ py_str_nat (nat (- n)) else py_str_nat (nat n))"

fun py_str :: "cell \<Rightarrow> string" where
  "py_str NaN = ''nan''"
| "py_str (Text s) = s"
| "py_str (Int64 n) = py_str_int n"
| "py_str (Float_whole n) = py_str_int n @ ''.0''"
| "py_str (Float_repr s) = s"
| "py_str (Truth b) = (if b then ''True'' else ''False'')"

text \<open>The dictionaries of the loader.\<close>

record 't event =
  ev_time :: 't
  ev_song :: string
  ev_score :: string
  ev_obs :: string

record 't annotation =
  an_time :: 't
  an_text :: string

record 't schedule =
  annotations :: "'t annotation list"
  music_start :: "'t option"
  music_end :: "'t option"

text \<open>\<open>str(x).strip() if pd.notna(x) else ""\<close>, the text of a label, a score or an observation.\<close>

definition stripped :: "cell \<Rightarrow> string" where
  "stripped c = (if c = NaN then [] else py_strip (py_str c))"

text \<open>Lines 147 to 157: a row whose time raises \<open>ValueError\<close> or \<open>TypeError\<close> is left out;
  any other exception leaves the function.\<close>

fun all_events :: "(civil \<Rightarrow> py_exn + 't) \<Rightarrow> sched_row list \<Rightarrow> string \<Rightarrow> bool \<Rightarrow> py_exn + 't event list" where
  "all_events eastern [] date_str is_afternoon = Inr []"
| "all_events eastern (row # rows) date_str is_afternoon =
     (case parse_time eastern (py_strip (py_str (time_str row))) date_str is_afternoon of
        Inl e \<Rightarrow>
          if e = ValueError \<or> e = TypeError then all_events eastern rows date_str is_afternoon
          else Inl e
      | Inr current_row_time \<Rightarrow>
          (case all_events eastern rows date_str is_afternoon of
             Inl e \<Rightarrow> Inl e
           | Inr evs \<Rightarrow>
               Inr (\<lparr>ev_time = current_row_time, ev_song = stripped (song_artist row),
                     ev_score = stripped (score row), ev_obs = stripped (observation row)\<rparr> # evs)))"

text \<open>Lines 163 to 173: one pass over the events, left at the first \<open>music end\<close>.\<close>

definition says_music_end :: "'t event \<Rightarrow> bool" where
  "says_music_end e = py_in ''music end'' (py_lower (ev_obs e))"

fun session_scan :: "'t event list \<Rightarrow> 't option \<Rightarrow> 't option \<Rightarrow> 't option \<times> 't option" where
  "session_scan [] first_song_start_time final_end_time = (first_song_start_time, final_end_time)"
| "session_scan (e # es) first_song_start_time final_end_time =
     (let start = (if ev_song e \<noteq> [] \<and> first_song_start_time = None then Some (ev_time e)
                   else first_song_start_time)
      in if says_music_end e then (start, Some (ev_time e))
         else session_scan es start final_end_time)"

text \<open>Lines 179 to 190: the text of an annotation.\<close>

definition newline :: string where
  "newline = [CHR 0x0A]"

fun py_join :: "string \<Rightarrow> string list \<Rightarrow> string" where
  "py_join sep [] = []"
| "py_join sep [x] = x"
| "py_join sep (x # y # ys) = x @ sep @ py_join sep (y # ys)"

definition text_parts :: "'t event \<Rightarrow> string list" where
  "text_parts e =
     (let parts0 = [];
          parts1 = (if ev_song e \<noteq> [] then parts0 @ [ev_song e] else parts0);
          parts2 = (if ev_score e \<noteq> [] then parts1 @ [''(Score: '' @ ev_score e @ '')''] else parts1);
          parts3 = (if ev_obs e \<noteq> [] then parts2 @ [ev_obs e] else parts2)
      in parts3)"

definition annotation_of :: "'t event \<Rightarrow> 't annotation" where
  "annotation_of e = \<lparr>an_time = ev_time e, an_text = py_join newline (text_parts e)\<rparr>"

text \<open>The first argument is the file at \<open>file_path\<close>, \<open>None\<close> when \<open>os.path.exists\<close> is false.\<close>

definition load_music_schedule ::
  "(civil \<Rightarrow> py_exn + 't) \<Rightarrow> ('t, 'v) csv_file option \<Rightarrow> string \<Rightarrow> string \<Rightarrow> py_exn + 't schedule option" where
  "load_music_schedule eastern file experiment_date_str data_folder_path =
     (case file of
        None \<Rightarrow> Inr None
      | Some f \<Rightarrow>
          (case as_schedule f of
             Inl e \<Rightarrow> Inr None
           | Inr table \<Rightarrow>
               (let df_schedule = dropna table in
                if df_schedule = [] then Inr None
                else
                  (let is_afternoon = py_in ''afternoon'' (py_lower data_folder_path) in
                   case all_events eastern df_schedule experiment_date_str is_afternoon of
                     Inl e \<Rightarrow> Inl e
                   | Inr evs \<Rightarrow>
                       if evs = [] then Inr None
                       else
                         (case session_scan evs None None of
                            (first_song_start_time, found_end) \<Rightarrow>
                              (let final_end_time =
                                     (case found_end of None \<Rightarrow> Some (ev_time (last evs)) | Some t \<Rightarrow> Some t)
                               in Inr (Some \<lparr>annotations = map annotation_of evs,
                                              music_start = first_song_start_time,
                                              music_end = final_end_time\<rparr>)))))))"

section \<open>The charts: \<open>plot_and_save_signal\<close>\<close>

text \<open>
  A chart is what the function hands to the plotting library: the file name, the title, the
  line, the limits of the horizontal axis, the number of annotation lines (the height of
  the figure is 6 + 0.3 times that number), the shaded span, and the text boxes with
  their instant and stagger level (the box hangs at -0.15 - 0.08 times the level).
  Line 200 returns without a chart only when the series is empty or all its instants are
  NaT. A series that holds a NaT beside instants goes on to \<open>ax.plot\<close> at line 213,
  which raises \<open>ConversionError\<close>, a \<open>TypeError\<close> of the plotting library; nothing
  catches it.
\<close>

record ('t, 'v) chart =
  chart_file :: string
  chart_title :: string
  chart_line :: "('t option \<times> 'v) list"
  chart_xlim :: "'t \<times> 't"
  chart_lines :: nat
  chart_span :: "('t \<times> 't) option"
  chart_boxes :: "('t \<times> string \<times> nat) list"

definition est_times :: "('t option \<times> 'v) list \<Rightarrow> 't list" where
  "est_times df = List.map_filter fst df"

fun place_boxes :: "'t::linorder \<Rightarrow> 't \<Rightarrow> 't annotation list \<Rightarrow> nat \<Rightarrow> ('t \<times> string \<times> nat) list" where
  "place_boxes min_time_data max_time_data [] stagger_level = []"
| "place_boxes min_time_data max_time_data (a # rest) stagger_level =
     (if \<not> (min_time_data \<le> an_time a \<and> an_time a \<le> max_time_data)
      then place_boxes min_time_data max_time_data rest stagger_level
      else (an_time a, an_text a, stagger_level)
             # place_boxes min_time_data max_time_data rest (Suc stagger_level))"

definition channel_name :: "(string \<times> string) list \<Rightarrow> string \<Rightarrow> string" where
  "channel_name channel_map signal_name =
     (case map_of channel_map signal_name of None \<Rightarrow> signal_name | Some full \<Rightarrow> full)"

definition plot_and_save_signal ::
  "string \<Rightarrow> ('t::linorder option \<times> 'v) list \<Rightarrow> 't schedule option \<Rightarrow> (string \<times> string) list
     \<Rightarrow> py_exn + ('t, 'v) chart option" where
  "plot_and_save_signal signal_name df schedule_data channel_map =
     (case est_times df of
        [] \<Rightarrow> Inr None
      | t # ts \<Rightarrow>
          if list_ex (\<lambda>point. fst point = None) df then Inl TypeError
          else
          (let anns = (case schedule_data of None \<Rightarrow> [] | Some sd \<Rightarrow> annotations sd);
               m_start = (case schedule_data of None \<Rightarrow> None | Some sd \<Rightarrow> music_start sd);
               m_end = (case schedule_data of None \<Rightarrow> None | Some sd \<Rightarrow> music_end sd);
               total_annotation_lines = sum_list (map (\<lambda>item. count_list (an_text item) (CHR 0x0A) + 1) anns);
               min_time_data = fold min ts t;
               max_time_data = fold max ts t
           in Inr (Some \<lparr>chart_file = signal_name @ ''_plot.png'',
                     chart_title = ''EmotiBit Signal: '' @ signal_name @ '' ('' @ channel_name channel_map signal_name @ '')'',
                     chart_line = df,
                     chart_xlim = (min_time_data, max_time_data),
                     chart_lines = total_annotation_lines,
                     chart_span = (case (m_start, m_end) of (Some a, Some b) \<Rightarrow> Some (a, b) | _ \<Rightarrow> None),
                     chart_boxes = place_boxes min_time_data max_time_data anns 0\<rparr>)))"

section \<open>A session folder: \<open>load_emotibit_data\<close> and \<open>process_folder\<close>\<close>

text \<open>
  A folder is its path, whether it is a directory, and its entries in the order the file
  system lists them. \<open>glob\<close> is used with patterns of the form \<open>*suffix\<close> only: a name
  matches when it ends with the suffix, letter case included, and does not start with a
  dot; a path that is no directory has no match. The folder path is taken to hold no wildcard character, and
  file paths are written as the names inside the folder.
\<close>

record ('t, 'v) folder =
  folder_path :: string
  is_dir :: bool
  entries :: "(string \<times> ('t, 'v) csv_file) list"

definition glob_star :: "string \<Rightarrow> ('t, 'v) folder \<Rightarrow> string list" where
  "glob_star ending fd =
     (if is_dir fd then filter (\<lambda>name. suffix ending name \<and> \<not> prefix ''.'' name) (map fst (entries fd))
      else [])"

definition CHANNELS :: "(string \<times> string) list" where
  "CHANNELS =
     [(''AX'', ''Accelerometer X''), (''AY'', ''Accelerometer Y''), (''AZ'', ''Accelerometer Z''),
      (''GX'', ''Gyroscope X''), (''GY'', ''Gyroscope Y''), (''GZ'', ''Gyroscope Z''),
      (''EA'', ''Electrodermal Activity''), (''EL'', ''Electrodermal Level''),
      (''SF'', ''SCR Frequency''), (''SA'', ''SCR Amplitude''), (''SR'', ''SCR Rise Time''),
      (''T1'', ''Temperature''), (''TH'', ''Thermopile Temperature''),
      (''PI'', ''PPG Infrared''), (''PR'', ''PPG Red''), (''PG'', ''PPG Green''),
      (''BI'', ''Beat Interval''), (''HR'', ''Heart Rate'')]"

definition SIGNALS_TO_PLOT :: "string list" where
  "SIGNALS_TO_PLOT = map fst CHANNELS"

text \<open>Lines 62 to 71: the date of the first file name whose leading token \<open>strptime\<close> accepts.\<close>

fun experiment_date :: "string list \<Rightarrow> string option" where
  "experiment_date [] = None"
| "experiment_date (basename # rest) =
     (let date_part = split_first CHR ''_'' basename in
      case strptime_Ymd date_part of
        Inr d \<Rightarrow> Some (py_replace ''-'' [] date_part)
      | Inl e \<Rightarrow> experiment_date rest)"

text \<open>Lines 77 to 92: one channel per signal; a signal with no file, an unreadable file or a
  table without \<open>LocalTimestamp\<close> or with fewer than two columns is passed over.\<close>

fun load_signals ::
  "('t, 'v) folder \<Rightarrow> string list \<Rightarrow> (string \<times> ('t option \<times> 'v) list) list
     \<Rightarrow> (string \<times> ('t option \<times> 'v) list) list" where
  "load_signals fd [] dataframes = dataframes"
| "load_signals fd (signal_type # rest) dataframes =
     (case glob_star (''_'' @ signal_type @ ''.csv'') fd of
        [] \<Rightarrow> load_signals fd rest dataframes
      | file_path # others \<Rightarrow>
          (case map_of (entries fd) file_path of
             None \<Rightarrow> load_signals fd rest dataframes
           | Some f \<Rightarrow>
               (case as_channel f of
                  Inl e \<Rightarrow> load_signals fd rest dataframes
                | Inr df \<Rightarrow>
                    if \<not> List.member (df_columns df) ''LocalTimestamp'' \<or> length (df_columns df) < 2
                    then load_signals fd rest dataframes
                    else (case df_series df of
                            Inl e \<Rightarrow> load_signals fd rest dataframes
                          | Inr series \<Rightarrow>
                              load_signals fd rest (AList.update signal_type series dataframes)))))"

definition falsy :: "string option \<Rightarrow> bool" where
  "falsy s = (s = None \<or> s = Some [])"

definition load_emotibit_data ::
  "('t, 'v) folder \<Rightarrow> string list \<Rightarrow> (string \<times> ('t option \<times> 'v) list) list \<times> string option" where
  "load_emotibit_data fd signals_to_plot =
     (let all_files = glob_star ''.csv'' fd in
      if all_files = [] then ([], None)
      else
        (let experiment_date_str = experiment_date all_files in
         if falsy experiment_date_str then ([], None)
         else (load_signals fd signals_to_plot [], experiment_date_str)))"

text \<open>Lines 287 and 288: one chart after the other; an exception of a plot ends the loop.\<close>

fun save_plots ::
  "(string \<times> ('t::linorder option \<times> 'v) list) list \<Rightarrow> 't schedule option \<Rightarrow> py_exn + ('t, 'v) chart list" where
  "save_plots [] schedule_data = Inr []"
| "save_plots ((signal, df) # rest) schedule_data =
     (case plot_and_save_signal signal df schedule_data CHANNELS of
        Inl e \<Rightarrow> Inl e
      | Inr None \<Rightarrow> save_plots rest schedule_data
      | Inr (Some ch) \<Rightarrow>
          (case save_plots rest schedule_data of
             Inl e \<Rightarrow> Inl e
           | Inr charts \<Rightarrow> Inr (ch # charts)))"

text \<open>\<open>process_folder\<close> returns the charts it saved, or the exception that leaves it.\<close>

definition process_folder ::
  "(civil \<Rightarrow> py_exn + 't::linorder) \<Rightarrow> ('t, 'v) folder \<Rightarrow> py_exn + ('t, 'v) chart list" where
  "process_folder eastern fd =
     (case glob_star '' Combined Observations.csv'' fd of
        [] \<Rightarrow> Inl IndexError
      | music_schedule_path # others \<Rightarrow>
          if \<not> is_dir fd then Inr []
          else if map_of (entries fd) music_schedule_path = None then Inr []
          else
            (case load_emotibit_data fd SIGNALS_TO_PLOT of
               (emotibit_data, date_str) \<Rightarrow>
                 if falsy date_str then Inr []
                 else
                   (case load_music_schedule eastern (map_of (entries fd) music_schedule_path)
                           (case date_str of None \<Rightarrow> [] | Some d \<Rightarrow> d) (folder_path fd) of
                      Inl e \<Rightarrow> Inl e
                    | Inr schedule_data \<Rightarrow>
                        if emotibit_data = [] then Inr []
                        else save_plots emotibit_data schedule_data)))"

text \<open>The loop of the main block, over the sub-directories of the root folder: the charts of
  the folders that were finished, and the exception that stopped the loop if one did.\<close>

fun run_batch ::
  "(civil \<Rightarrow> py_exn + 't::linorder) \<Rightarrow> ('t, 'v) folder list \<Rightarrow> ('t, 'v) chart list list \<times> py_exn option" where
  "run_batch eastern [] = ([], None)"
| "run_batch eastern (fd # rest) =
     (case process_folder eastern fd of
        Inl e \<Rightarrow> ([], Some e)
      | Inr charts \<Rightarrow> (case run_batch eastern rest of (done, stop) \<Rightarrow> (charts # done, stop)))"

section \<open>The vocabulary of the specification\<close>

text \<open>
  The notions the specification uses, written from its words, to compare the program with:
  the time of a row and whether it parses (a usable row), the first event with a label,
  a phrase occurring in a text whatever the case of its letters, the events up to and
  including the first that mentions the end of the music, the text of an annotation, the
  file names that name a date, the boxes of a chart, and the series a chart can be drawn
  of (one without an instant, which is skipped, or one without a NaT).
\<close>

definition row_time :: "(civil \<Rightarrow> py_exn + 't) \<Rightarrow> string \<Rightarrow> bool \<Rightarrow> sched_row \<Rightarrow> py_exn + 't" where
  "row_time eastern date_str is_pm row = parse_time eastern (py_strip (py_str (time_str row))) date_str is_pm"

definition usable :: "(civil \<Rightarrow> py_exn + 't) \<Rightarrow> string \<Rightarrow> bool \<Rightarrow> sched_row \<Rightarrow> bool" where
  "usable eastern date_str is_pm row =
     (case row_time eastern date_str is_pm row of Inr t \<Rightarrow> True | Inl e \<Rightarrow> False)"

definition first_labelled :: "'t event list \<Rightarrow> 't option" where
  "first_labelled evs = map_option ev_time (find (\<lambda>e. ev_song e \<noteq> []) evs)"

definition occurs_ci :: "string \<Rightarrow> string \<Rightarrow> bool" where
  "occurs_ci phrase s =
     list_ex (\<lambda>k. py_lower (take (length phrase) (drop k s)) = phrase) [0..<Suc (length s)]"

definition upto_music_end :: "'t event list \<Rightarrow> 't event list" where
  "upto_music_end evs =
     takeWhile (\<lambda>e. \<not> occurs_ci ''music end'' (ev_obs e)) evs
       @ take 1 (dropWhile (\<lambda>e. \<not> occurs_ci ''music end'' (ev_obs e)) evs)"

fun lines_joined :: "string list \<Rightarrow> string" where
  "lines_joined [] = []"
| "lines_joined [part] = part"
| "lines_joined (part # next_part # parts) = part @ CHR 0x0A # lines_joined (next_part # parts)"

definition spec_text :: "string \<Rightarrow> string \<Rightarrow> string \<Rightarrow> string" where
  "spec_text label sc obs =
     lines_joined
       (filter (\<lambda>part. part \<noteq> []) [label, if sc = [] then [] else ''(Score: '' @ sc @ '')'', obs])"

text \<open>The score as the scenario of the specification writes it, a whole number without a
  fraction, and the text of an annotation with that score.\<close>

definition score_as_written :: "cell \<Rightarrow> string" where
  "score_as_written c = (case c of Float_whole n \<Rightarrow> py_str_int n | _ \<Rightarrow> stripped c)"

definition claimed_text :: "sched_row \<Rightarrow> string" where
  "claimed_text row =
     spec_text (stripped (song_artist row)) (score_as_written (score row)) (stripped (observation row))"

definition clean_edges :: "string \<Rightarrow> bool" where
  "clean_edges txt = (txt = [] \<or> (\<not> is_space (hd txt) \<and> \<not> is_space (last txt)))"

text \<open>
  A date as the format \<open>%Y-%m-%d\<close> lets it be written: four digits, a hyphen, the month
  as 1 to 12 with or without a leading zero, a hyphen, the day as 1 to 31 with or without
  a leading zero or with a blank in its place, the three numbers being a day of the
  calendar. An ISO date is such a text of ten characters without a blank:
  YYYY-MM-DD.
\<close>

definition month_text :: "string \<Rightarrow> bool" where
  "month_text ms =
     (case ms of
        [x] \<Rightarrow> between CHR ''1'' CHR ''9'' x
      | [x, y] \<Rightarrow> (x = CHR ''0'' \<and> between CHR ''1'' CHR ''9'' y) \<or> (x = CHR ''1'' \<and> between CHR ''0'' CHR ''2'' y)
      | _ \<Rightarrow> False)"

definition day_text :: "string \<Rightarrow> bool" where
  "day_text ds =
     (case ds of
        [x] \<Rightarrow> between CHR ''1'' CHR ''9'' x
      | [x, y] \<Rightarrow> ((x = CHR '' '' \<or> x = CHR ''0'') \<and> between CHR ''1'' CHR ''9'' y)
                 \<or> (between CHR ''1'' CHR ''2'' x \<and> is_digit y)
                 \<or> (x = CHR ''3'' \<and> between CHR ''0'' CHR ''1'' y)
      | _ \<Rightarrow> False)"

definition number_of :: "string \<Rightarrow> nat" where
  "number_of ds = foldl (\<lambda>n c. if c = CHR '' '' then n else 10 * n + digit_val c) 0 ds"

definition date_token :: "string \<Rightarrow> bool" where
  "date_token tok =
     (case tok of
        a # b # c # e # h # rest \<Rightarrow>
          is_digit a \<and> is_digit b \<and> is_digit c \<and> is_digit e \<and> h = CHR ''-''
          \<and> (let ms = takeWhile (\<lambda>x. x \<noteq> CHR ''-'') rest; ds = drop (Suc (length ms)) rest
             in length ms < length rest \<and> month_text ms \<and> day_text ds
                \<and> valid_date (number_of [a, b, c, e]) (number_of ms) (number_of ds))
      | _ \<Rightarrow> False)"

definition iso_date :: "string \<Rightarrow> bool" where
  "iso_date tok = (length tok = 10 \<and> date_token tok \<and> list_all (\<lambda>c. c \<noteq> CHR '' '') tok)"

definition names_a_date :: "string \<Rightarrow> bool" where
  "names_a_date name = date_token (split_first CHR ''_'' name)"

definition starts_with_iso_date :: "string \<Rightarrow> bool" where
  "starts_with_iso_date name = iso_date (take 10 name)"

definition complete_series :: "('t option \<times> 'v) list \<Rightarrow> bool" where
  "complete_series df = (est_times df = [] \<or> list_all (\<lambda>point. fst point \<noteq> None) df)"

definition shared_annotations :: "'t schedule option \<Rightarrow> 't annotation list" where
  "shared_annotations schedule_data = (case schedule_data of None \<Rightarrow> [] | Some sd \<Rightarrow> annotations sd)"

definition boxes_in_range :: "'t::linorder \<Rightarrow> 't \<Rightarrow> 't annotation list \<Rightarrow> ('t \<times> string \<times> nat) list" where
  "boxes_in_range lo hi anns =
     map (\<lambda>(level, a). (an_time a, an_text a, level))
       (enumerate 0 (filter (\<lambda>a. lo \<le> an_time a \<and> an_time a \<le> hi) anns))"

text \<open>Characters of a time text, the shape of a one- or two-digit field and its value.\<close>

definition time_char :: "char \<Rightarrow> bool" where
  "time_char c = (is_digit c \<or> c = CHR '':'')"

definition field :: "string \<Rightarrow> nat \<Rightarrow> bool" where
  "field t v = (case t of [a] \<Rightarrow> is_digit a \<and> v = digit_val a
                | [a, b] \<Rightarrow> is_digit a \<and> is_digit b \<and> v = 10 * digit_val a + digit_val b
                | _ \<Rightarrow> False)"

definition not_am_pm :: "char \<Rightarrow> bool" where
  "not_am_pm c = (c \<noteq> CHR ''a'' \<and> c \<noteq> CHR ''p'')"

section \<open>A sample session\<close>

text \<open>
  Concrete inputs on which the results below are run: instants are seconds since midnight,
  a schedule with a malformed time, an empty row and a marker \<open>AM\<close>, whose scores 8 and 9
  stand in a column with empty fields and so are floats, a schedule whose \<open>music end\<close>
  row comes before its first song, the three rows of the scenario of the specification
  (09:00 SongA 8, 09:05 SongB 9, 09:10 Music end), two channel files of different
  extent, and folders with and without a schedule file, without a dated file name, and
  with a date written without padding.
\<close>

definition demo_eastern :: "civil \<Rightarrow> py_exn + nat" where
  "demo_eastern c = Inr (3600 * c_hour c + 60 * c_minute c + c_second c)"

definition row_songA :: sched_row where
  "row_songA = \<lparr>time_str = Text ''09:00'', song_artist = Text ''SongA'', score = Float_whole 8, observation = NaN\<rparr>"

definition row_bad :: sched_row where
  "row_bad = \<lparr>time_str = Text ''9:61'', song_artist = Text ''Lost'', score = NaN, observation = Text ''music end''\<rparr>"

definition rows_after :: "sched_row list" where
  "rows_after =
     [\<lparr>time_str = NaN, song_artist = NaN, score = NaN, observation = NaN\<rparr>,
      \<lparr>time_str = Text ''09:05 AM'', song_artist = Text ''SongB'', score = Float_whole 9, observation = NaN\<rparr>,
      \<lparr>time_str = Text ''09:07'', song_artist = NaN, score = NaN, observation = NaN\<rparr>,
      \<lparr>time_str = Text ''09:10'', song_artist = NaN, score = NaN, observation = Text '' Music End ''\<rparr>,
      \<lparr>time_str = Text ''09:12'', song_artist = Text ''SongC'', score = NaN, observation = Text ''encore''\<rparr>]"

definition demo_rows :: "sched_row list" where
  "demo_rows = [row_songA] @ row_bad # rows_after"

definition demo_events :: "nat event list" where
  "demo_events =
     [\<lparr>ev_time = 32400, ev_song = ''SongA'', ev_score = ''8.0'', ev_obs = []\<rparr>,
      \<lparr>ev_time = 32700, ev_song = ''SongB'', ev_score = ''9.0'', ev_obs = []\<rparr>,
      \<lparr>ev_time = 32820, ev_song = [], ev_score = [], ev_obs = []\<rparr>,
      \<lparr>ev_time = 33000, ev_song = [], ev_score = [], ev_obs = ''Music End''\<rparr>,
      \<lparr>ev_time = 33120, ev_song = ''SongC'', ev_score = [], ev_obs = ''encore''\<rparr>]"

definition demo_annotations :: "nat annotation list" where
  "demo_annotations =
     [\<lparr>an_time = 32400, an_text = ''SongA'' @ CHR 0x0A # ''(Score: 8.0)''\<rparr>,
      \<lparr>an_time = 32700, an_text = ''SongB'' @ CHR 0x0A # ''(Score: 9.0)''\<rparr>,
      \<lparr>an_time = 32820, an_text = []\<rparr>,
      \<lparr>an_time = 33000, an_text = ''Music End''\<rparr>,
      \<lparr>an_time = 33120, an_text = ''SongC'' @ CHR 0x0A # ''encore''\<rparr>]"

definition demo_schedule :: "nat schedule" where
  "demo_schedule = \<lparr>annotations = demo_annotations, music_start = Some 32400, music_end = Some 33000\<rparr>"

definition schedule_file :: "sched_row list \<Rightarrow> (nat, int) csv_file" where
  "schedule_file rows = \<lparr>as_channel = Inl OtherError, as_schedule = Inr rows\<rparr>"

definition channel_file :: "string \<Rightarrow> (nat option \<times> int) list \<Rightarrow> (nat, int) csv_file" where
  "channel_file code series =
     \<lparr>as_channel = Inr \<lparr>df_columns = [''LocalTimestamp'', code], df_series = Inr series\<rparr>,
      as_schedule = Inl OtherError\<rparr>"

definition late_song_rows :: "sched_row list" where
  "late_song_rows =
     [\<lparr>time_str = Text ''09:00'', song_artist = NaN, score = NaN, observation = Text ''Music end''\<rparr>,
      \<lparr>time_str = Text ''09:05'', song_artist = Text ''SongA'', score = NaN, observation = NaN\<rparr>]"

definition late_song_events :: "nat event list" where
  "late_song_events =
     [\<lparr>ev_time = 32400, ev_song = [], ev_score = [], ev_obs = ''Music end''\<rparr>,
      \<lparr>ev_time = 32700, ev_song = ''SongA'', ev_score = [], ev_obs = []\<rparr>]"

definition late_song_schedule :: "nat schedule" where
  "late_song_schedule =
     \<lparr>annotations = [\<lparr>an_time = 32400, an_text = ''Music end''\<rparr>, \<lparr>an_time = 32700, an_text = ''SongA''\<rparr>],
      music_start = None, music_end = Some 32400\<rparr>"

definition scenario_rows :: "sched_row list" where
  "scenario_rows =
     [\<lparr>time_str = Text ''09:00'', song_artist = Text ''SongA'', score = Float_whole 8, observation = NaN\<rparr>,
      \<lparr>time_str = Text ''09:05'', song_artist = Text ''SongB'', score = Float_whole 9, observation = NaN\<rparr>,
      \<lparr>time_str = Text ''09:10'', song_artist = NaN, score = NaN, observation = Text ''Music end''\<rparr>]"

definition scenario_schedule :: "nat schedule" where
  "scenario_schedule =
     \<lparr>annotations =
        [\<lparr>an_time = 32400, an_text = ''SongA'' @ CHR 0x0A # ''(Score: 8.0)''\<rparr>,
         \<lparr>an_time = 32700, an_text = ''SongB'' @ CHR 0x0A # ''(Score: 9.0)''\<rparr>,
         \<lparr>an_time = 33000, an_text = ''Music end''\<rparr>],
      music_start = Some 32400, music_end = Some 33000\<rparr>"

definition hr_series :: "(nat option \<times> int) list" where
  "hr_series = [(Some 32400, 61), (Some 32760, 64)]"

definition t1_series :: "(nat option \<times> int) list" where
  "t1_series = [(Some 32500, 30), (Some 32800, 31), (Some 33000, 32)]"

definition channel_entries :: "(string \<times> (nat, int) csv_file) list" where
  "channel_entries =
     [(''2024-01-05_HR.csv'', channel_file ''HR'' hr_series),
      (''2024-01-05_T1.csv'', channel_file ''T1'' t1_series)]"

definition demo_folder :: "(nat, int) folder" where
  "demo_folder =
     \<lparr>folder_path = ''data/P01 morning'', is_dir = True,
      entries = channel_entries @ [(''P01 Combined Observations.csv'', schedule_file demo_rows)]\<rparr>"

definition no_schedule_folder :: "(nat, int) folder" where
  "no_schedule_folder = \<lparr>folder_path = ''data/P02 morning'', is_dir = True, entries = channel_entries\<rparr>"

definition undated_folder :: "(nat, int) folder" where
  "undated_folder =
     \<lparr>folder_path = ''data/P03 morning'', is_dir = True,
      entries = [(''session_HR.csv'', channel_file ''HR'' hr_series),
                 (''2024-02-30_T1.csv'', channel_file ''T1'' t1_series),
                 (''P03 Combined Observations.csv'', schedule_file demo_rows)]\<rparr>"

definition unpadded_folder :: "(nat, int) folder" where
  "unpadded_folder =
     \<lparr>folder_path = ''data/P04 morning'', is_dir = True,
      entries = [(''2024-1-15_HR.csv'', channel_file ''HR'' hr_series),
                 (''P04 Combined Observations.csv'', schedule_file demo_rows)]\<rparr>"

definition gap_folder :: "(nat, int) folder" where
  "gap_folder =
     \<lparr>folder_path = ''data/P05 morning'', is_dir = True,
      entries = [(''2024-01-05_HR.csv'', channel_file ''HR'' hr_series),
                 (''2024-01-05_T1.csv'', channel_file ''T1'' [(Some 32500, 30), (None, 31), (Some 33000, 32)]),
                 (''P05 Combined Observations.csv'', schedule_file demo_rows)]\<rparr>"

definition hr_chart :: "(nat, int) chart" where
  "hr_chart =
     \<lparr>chart_file = ''HR_plot.png'', chart_title = ''EmotiBit Signal: HR (Heart Rate)'',
      chart_line = hr_series, chart_xlim = (32400, 32760), chart_lines = 8,
      chart_span = Some (32400, 33000),
      chart_boxes = [(32400, ''SongA'' @ CHR 0x0A # ''(Score: 8.0)'', 0), (32700, ''SongB'' @ CHR 0x0A # ''(Score: 9.0)'', 1)]\<rparr>"

definition t1_chart :: "(nat, int) chart" where
  "t1_chart =
     \<lparr>chart_file = ''T1_plot.png'', chart_title = ''EmotiBit Signal: T1 (Temperature)'',
      chart_line = t1_series, chart_xlim = (32500, 33000), chart_lines = 8,
      chart_span = Some (32400, 33000),
      chart_boxes = [(32700, ''SongB'' @ CHR 0x0A # ''(Score: 9.0)'', 0), (32820, [], 1), (33000, ''Music End'', 2)]\<rparr>"

section \<open>Facts about \<open>strptime\<close>\<close>

lemma code_point_simps [simp]: "code_point CHR ''0'' = 48" "code_point CHR ''1'' = 49" "code_point CHR ''2'' = 50"
  "code_point CHR ''3'' = 51" "code_point CHR ''5'' = 53" "code_point CHR ''6'' = 54" "code_point CHR ''9'' = 57"
  "code_point CHR '':'' = 58" "code_point CHR '' '' = 32" "code_point CHR ''a'' = 97" "code_point CHR ''p'' = 112"
  by (simp_all add: code_point_def)

lemma is_digit_iff: "is_digit c \<longleftrightarrow> 48 \<le> code_point c \<and> code_point c \<le> 57"
  by (simp add: is_digit_def between_def)

lemma two_chars_shape:
  assumes "(v, r) \<in> set (two_chars p q s)"
  shows "\<exists>a b. s = a # b # r \<and> p a \<and> q b \<and> v = 10 * digit_val a + digit_val b"
  using assms by (induction p q s rule: two_chars.induct) (auto split: if_splits)

lemma one_char_shape:
  assumes "(v, r) \<in> set (one_char p s)"
  shows "\<exists>a. s = a # r \<and> p a \<and> v = digit_val a"
  using assms by (induction p s rule: one_char.induct) (auto split: if_splits)

lemma rx_H_shape:
  assumes "(v, r) \<in> set (rx_H s)"
  shows "\<exists>t. s = t @ r \<and> field t v \<and> v \<le> 23"
  using assms unfolding rx_H_def
  by (auto dest!: two_chars_shape one_char_shape simp: field_def is_digit_iff between_def digit_val_def)

lemma rx_M_shape:
  assumes "(v, r) \<in> set (rx_M s)"
  shows "\<exists>t. s = t @ r \<and> field t v \<and> v \<le> 59"
  using assms unfolding rx_M_def
  by (auto dest!: two_chars_shape one_char_shape simp: field_def is_digit_iff between_def digit_val_def)

lemma rx_S_shape:
  assumes "(v, r) \<in> set (rx_S s)"
  shows "\<exists>t. s = t @ r \<and> field t v \<and> v \<le> 61"
  using assms unfolding rx_S_def
  by (auto dest!: two_chars_shape one_char_shape simp: field_def is_digit_iff between_def digit_val_def)

lemma rx_lit_shape: "r \<in> set (rx_lit c s) \<Longrightarrow> s = c # r"
  by (cases s) (auto split: if_splits)

lemma rx_ws_shape: "r \<in> set (rx_ws s) \<Longrightarrow> \<exists>w. s = w @ r \<and> w \<noteq> [] \<and> list_all is_space w"
proof (induction s)
  case Nil
  then show ?case by simp
next
  case (Cons a s)
  then have sp: "is_space a" and "r \<in> set (rx_ws s) \<or> r = s"
    by (auto split: if_splits)
  then show ?case
  proof (elim disjE)
    assume "r \<in> set (rx_ws s)"
    with Cons.IH obtain w where "s = w @ r" "list_all is_space w" by blast
    with sp have "a # s = (a # w) @ r \<and> a # w \<noteq> [] \<and> list_all is_space (a # w)" by simp
    then show ?thesis by blast
  next
    assume "r = s"
    with sp have "a # s = [a] @ r \<and> [a] \<noteq> [] \<and> list_all is_space [a]" by simp
    then show ?thesis by blast
  qed
qed

lemma match_HMS_shape:
  assumes "((h, m, sec), r) \<in> set (match_HMS s)"
  shows "\<exists>tH tM tS. s = tH @ CHR '':'' # tM @ CHR '':'' # tS @ r
           \<and> field tH h \<and> field tM m \<and> field tS sec \<and> h \<le> 23 \<and> m \<le> 59 \<and> sec \<le> 61"
proof -
  from assms obtain r1 r2 r3 r4 where
    H: "(h, r1) \<in> set (rx_H s)" and c1: "r2 \<in> set (rx_lit CHR '':'' r1)" and
    M: "(m, r3) \<in> set (rx_M r2)" and c2: "r4 \<in> set (rx_lit CHR '':'' r3)" and
    S: "(sec, r) \<in> set (rx_S r4)"
    unfolding match_HMS_def by auto
  from rx_H_shape[OF H] obtain tH where 1: "s = tH @ r1" "field tH h" "h \<le> 23" by blast
  from rx_M_shape[OF M] obtain tM where 2: "r2 = tM @ r3" "field tM m" "m \<le> 59" by blast
  from rx_S_shape[OF S] obtain tS where 3: "r4 = tS @ r" "field tS sec" "sec \<le> 61" by blast
  from rx_lit_shape[OF c1] rx_lit_shape[OF c2] 1 2 3
  have "s = tH @ CHR '':'' # tM @ CHR '':'' # tS @ r" by simp
  with 1 2 3 show ?thesis by blast
qed

lemma match_HM_shape:
  assumes "((h, m), r) \<in> set (match_HM s)"
  shows "\<exists>tH tM. s = tH @ CHR '':'' # tM @ r \<and> field tH h \<and> field tM m \<and> h \<le> 23 \<and> m \<le> 59"
proof -
  from assms obtain r1 r2 where
    H: "(h, r1) \<in> set (rx_H s)" and c1: "r2 \<in> set (rx_lit CHR '':'' r1)" and
    M: "(m, r) \<in> set (rx_M r2)"
    unfolding match_HM_def by auto
  from rx_H_shape[OF H] obtain tH where 1: "s = tH @ r1" "field tH h" "h \<le> 23" by blast
  from rx_M_shape[OF M] obtain tM where 2: "r2 = tM @ r" "field tM m" "m \<le> 59" by blast
  from rx_lit_shape[OF c1] 1 2
  have "s = tH @ CHR '':'' # tM @ r" by simp
  with 1 2 show ?thesis by blast
qed

lemma field_time_chars: "field t v \<Longrightarrow> list_all time_char t"
  by (auto simp: field_def time_char_def split: list.splits)

lemma strptime_HMS_Inr:
  assumes "strptime_HMS s = Inr (h, m, sec)"
  shows "((h, m, sec), []) \<in> set (match_HMS s) \<and> sec \<le> 59"
  using assms unfolding strptime_HMS_def
  by (auto split: list.splits if_splits prod.splits)

lemma strptime_HM_Inr:
  assumes "strptime_HM s = Inr (h, m, sec)"
  shows "((h, m), []) \<in> set (match_HM s) \<and> sec = 0"
  using assms unfolding strptime_HM_def
  by (auto split: list.splits if_splits prod.splits)

lemma strptime_HMS_Inl: "strptime_HMS s = Inl e \<Longrightarrow> e = ValueError"
  unfolding strptime_HMS_def by (auto split: list.splits if_splits prod.splits)

lemma strptime_HM_Inl: "strptime_HM s = Inl e \<Longrightarrow> e = ValueError"
  unfolding strptime_HM_def by (auto split: list.splits if_splits prod.splits)

lemma time_obj_Inl: "time_obj s = Inl e \<Longrightarrow> e = ValueError"
  unfolding time_obj_def
  by (auto split: sum.splits py_exn.splits dest: strptime_HM_Inl strptime_HMS_Inl)

lemma time_obj_Inr:
  assumes "time_obj s = Inr (h, m, sec)"
  shows "list_all time_char s \<and> h \<le> 23 \<and> m \<le> 59 \<and> sec \<le> 59"
proof -
  from assms consider "strptime_HMS s = Inr (h, m, sec)" | "strptime_HM s = Inr (h, m, sec)"
    unfolding time_obj_def by (auto split: sum.splits py_exn.splits)
  then show ?thesis
  proof cases
    case 1
    from strptime_HMS_Inr[OF 1] match_HMS_shape[of h m sec "[]" s]
    show ?thesis by (auto simp: time_char_def dest: field_time_chars)
  next
    case 2
    from strptime_HM_Inr[OF 2] match_HM_shape[of h m "[]" s]
    show ?thesis by (auto simp: time_char_def dest: field_time_chars)
  qed
qed

section \<open>Formatting a time and reading it back\<close>

lemma digit_char_props: "n < 10 \<Longrightarrow> is_digit (digit_char n) \<and> digit_val (digit_char n) = n"
  by (simp add: is_digit_iff digit_val_def digit_char_def code_point_def)

lemma fmt02d_shape:
  assumes "n < 100"
  shows "\<exists>a b. fmt02d n = [a, b] \<and> is_digit a \<and> is_digit b \<and> 10 * digit_val a + digit_val b = n"
proof (cases "n < 10")
  case True
  then have "fmt02d n = [CHR ''0'', digit_char n]"
    by (simp add: fmt02d_def py_str_nat.simps[of n])
  with True show ?thesis
    using digit_char_props[of n] by (simp add: is_digit_iff digit_val_def)
next
  case False
  with assms have lt: "n div 10 < 10" "n mod 10 < 10" by auto
  from False lt have "fmt02d n = [digit_char (n div 10), digit_char (n mod 10)]"
    by (simp add: fmt02d_def py_str_nat.simps[of n] py_str_nat.simps[of "n div 10"])
  with lt show ?thesis
    using digit_char_props[of "n div 10"] digit_char_props[of "n mod 10"] by simp
qed

lemma digit_not_colon: "is_digit c \<Longrightarrow> c \<noteq> CHR '':''"
  by (auto simp: is_digit_iff)

lemma digit_not_space: "is_digit c \<Longrightarrow> \<not> is_space c"
  by (auto simp: is_digit_iff is_space_def)

lemma field_cases:
  assumes "field t v"
  obtains a where "t = [a]" "is_digit a" "v = digit_val a"
  | a b where "t = [a, b]" "is_digit a" "is_digit b" "v = 10 * digit_val a + digit_val b"
  using assms by (auto simp: field_def split: list.splits)

lemma tail_field:
  assumes "x @ t = y @ [a, b]" "field t v" "is_digit a" "is_digit b"
    and "x \<noteq> []" "\<not> is_digit (last x)"
  shows "x = y \<and> v = 10 * digit_val a + digit_val b"
  using assms(2)
proof (cases rule: field_cases)
  case (1 c)
  with assms(1) have "rev (x @ [c]) = rev (y @ [a, b])" by simp
  then have "rev x = a # rev y" by simp
  then have "x = y @ [a]" by (metis rev_rev_ident rev.simps(2))
  with assms show ?thesis by simp
next
  case (2 c d)
  with assms(1) have "rev (x @ [c, d]) = rev (y @ [a, b])" by simp
  then have "c = a \<and> d = b \<and> rev x = rev y" by simp
  with 2 show ?thesis by simp
qed

lemma blank_then_shape:
  assumes "(v, r) \<in> set (blank_then q s)"
  shows "\<exists>a b. s = a # b # r"
  using assms by (induction q s rule: blank_then.induct) (auto split: if_splits)

lemma rx_Y_suffix: "(v, r) \<in> set (rx_Y s) \<Longrightarrow> suffix r s"
  by (induction s rule: rx_Y.induct) (auto split: if_splits simp: suffix_def)

lemma rx_m_suffix: "(v, r) \<in> set (rx_m s) \<Longrightarrow> suffix r s"
  unfolding rx_m_def by (auto dest!: two_chars_shape one_char_shape simp: suffix_def)

lemma rx_d_suffix: "(v, r) \<in> set (rx_d s) \<Longrightarrow> suffix r s"
  unfolding rx_d_def
  by (auto dest!: two_chars_shape one_char_shape blank_then_shape simp: suffix_def)

lemma compact_time_fields:
  assumes m: "(dt, []) \<in> set (match_compact (d @ '' '' @ fmt02d h @ '':'' @ fmt02d mi @ '':'' @ fmt02d se))"
    and b: "h < 100" "mi < 100" "se < 100"
  shows "c_hour dt = h \<and> c_minute dt = mi \<and> c_second dt = se"
proof -
  from fmt02d_shape[OF b(1)] obtain h1 h2 where
    fh: "fmt02d h = [h1, h2]" "is_digit h1" "is_digit h2" "10 * digit_val h1 + digit_val h2 = h" by blast
  from fmt02d_shape[OF b(2)] obtain m1 m2 where
    fm: "fmt02d mi = [m1, m2]" "is_digit m1" "is_digit m2" "10 * digit_val m1 + digit_val m2 = mi" by blast
  from fmt02d_shape[OF b(3)] obtain s1 s2 where
    fs: "fmt02d se = [s1, s2]" "is_digit s1" "is_digit s2" "10 * digit_val s1 + digit_val s2 = se" by blast
  let ?full = "d @ '' '' @ fmt02d h @ '':'' @ fmt02d mi @ '':'' @ fmt02d se"
  from m obtain y r1 mo r2 dd r3 r4 where
    ws: "r4 \<in> set (rx_ws r3)" and
    pre: "(y, r1) \<in> set (rx_Y ?full)" "(mo, r2) \<in> set (rx_m r1)" "(dd, r3) \<in> set (rx_d r2)" and
    hms: "((c_hour dt, c_minute dt, c_second dt), []) \<in> set (match_HMS r4)"
    unfolding match_compact_def by auto
  have suf: "\<exists>p. ?full = p @ r3"
  proof -
    from pre(1) have "suffix r1 ?full" by (rule rx_Y_suffix)
    moreover from pre(2) have "suffix r2 r1" by (rule rx_m_suffix)
    moreover from pre(3) have "suffix r3 r2" by (rule rx_d_suffix)
    ultimately have "suffix r3 ?full" by (meson suffix_order.trans)
    then show ?thesis by (auto simp: suffix_def)
  qed
  then obtain p where p: "?full = p @ r3" by blast
  from rx_ws_shape[OF ws] obtain w where w: "r3 = w @ r4" "w \<noteq> []" "list_all is_space w" by blast
  from match_HMS_shape[OF hms] obtain tH tM tS where
    t: "r4 = tH @ CHR '':'' # tM @ CHR '':'' # tS"
       "field tH (c_hour dt)" "field tM (c_minute dt)" "field tS (c_second dt)" by auto
  have e1: "(p @ w @ tH @ CHR '':'' # tM @ [CHR '':'']) @ tS = (d @ '' '' @ [h1, h2] @ '':'' @ [m1, m2] @ '':'') @ [s1, s2]"
    using p w(1) t(1) fh(1) fm(1) fs(1) by simp
  have s: "p @ w @ tH @ CHR '':'' # tM @ [CHR '':''] = d @ '' '' @ [h1, h2] @ '':'' @ [m1, m2] @ '':''
           \<and> c_second dt = 10 * digit_val s1 + digit_val s2"
    by (rule tail_field[OF e1 t(4) fs(2) fs(3)]) (auto dest: digit_not_colon)
  then have e2: "(p @ w @ tH @ [CHR '':'']) @ tM = (d @ '' '' @ [h1, h2] @ '':'') @ [m1, m2]"
    by simp
  have mm: "p @ w @ tH @ [CHR '':''] = d @ '' '' @ [h1, h2] @ '':''
           \<and> c_minute dt = 10 * digit_val m1 + digit_val m2"
    by (rule tail_field[OF e2 t(3) fm(2) fm(3)]) (auto dest: digit_not_colon)
  then have e3: "(p @ w) @ tH = (d @ '' '') @ [h1, h2]"
    by simp
  have "last (p @ w) = last w" using w(2) by simp
  moreover have "is_space (last w)" using w(2,3) by (simp add: list_all_iff)
  ultimately have nd: "\<not> is_digit (last (p @ w))" using digit_not_space by auto
  have hh: "p @ w = d @ '' '' \<and> c_hour dt = 10 * digit_val h1 + digit_val h2"
    by (rule tail_field[OF e3 t(2) fh(2) fh(3)]) (use w(2) nd in auto)
  from s mm hh fh(4) fm(4) fs(4) show ?thesis by simp
qed

lemma adjust_hour_le: "h \<le> 23 \<Longrightarrow> adjust_hour pm h \<le> 23"
  by (simp add: adjust_hour_def)

lemma strptime_compact_Inr:
  "strptime_compact s = Inr dt \<Longrightarrow> (dt, []) \<in> set (match_compact s)"
  unfolding strptime_compact_def by (auto split: list.splits if_splits prod.splits)

lemma parse_time_Inr:
  assumes "parse_time eastern txt date_str is_pm = Inr t"
  shows "\<exists>h mi se dt. time_obj (cleaned_time txt) = Inr (h, mi, se)
           \<and> eastern dt = Inr t
           \<and> c_hour dt = adjust_hour is_pm h \<and> c_minute dt = mi \<and> c_second dt = se"
proof -
  from assms obtain h mi se where tobj: "time_obj (cleaned_time txt) = Inr (h, mi, se)"
    unfolding parse_time_def by (auto split: sum.splits)
  let ?full = "date_str @ '' '' @ fmt02d (adjust_hour is_pm h) @ '':'' @ fmt02d mi @ '':'' @ fmt02d se"
  from assms tobj obtain dt where dt: "strptime_compact ?full = Inr dt" "eastern dt = Inr t"
    unfolding parse_time_def by (auto simp: Let_def split: sum.splits)
  from time_obj_Inr[OF tobj] have "adjust_hour is_pm h < 100" "mi < 100" "se < 100"
    using adjust_hour_le[of h is_pm] by auto
  from compact_time_fields[OF strptime_compact_Inr[OF dt(1)] this] tobj dt(2)
  show ?thesis by blast
qed

lemma parse_time_Inl_time:
  "time_obj (cleaned_time txt) = Inl e \<Longrightarrow> parse_time eastern txt date_str is_pm = Inl ValueError"
  unfolding parse_time_def by (auto dest: time_obj_Inl)

section \<open>Cleaning the time text\<close>

lemma lower_space: "is_space c \<Longrightarrow> lower_char c = c"
  by (auto simp: is_space_def lower_char_def Let_def)

lemma lower_time_char: "time_char c \<Longrightarrow> lower_char c = c"
  by (auto simp: time_char_def is_digit_iff lower_char_def Let_def)

lemma py_lower_id: "list_all (\<lambda>c. lower_char c = c) s \<Longrightarrow> py_lower s = s"
  by (induction s) (auto simp: py_lower_def)

lemma py_lower_append: "py_lower (x @ y) = py_lower x @ py_lower y"
  by (simp add: py_lower_def)

lemma replace_skip:
  assumes "old \<noteq> []" "list_all (\<lambda>c. c \<noteq> hd old) x"
  shows "py_replace old new (x @ y) = x @ py_replace old new y"
  using assms
proof (induction x)
  case Nil
  then show ?case by simp
next
  case (Cons c x)
  then have "\<not> prefix old (c # x @ y)"
    by (cases old) auto
  with Cons show ?case by simp
qed

lemma replace_none:
  assumes "old \<noteq> []" "list_all (\<lambda>c. c \<noteq> hd old) x"
  shows "py_replace old new x = x"
  using replace_skip[OF assms, of new "[]"] assms(1) by simp

lemma replace_hit:
  assumes "old \<noteq> []"
  shows "py_replace old new (old @ y) = new @ py_replace old new y"
  using assms by (cases old) auto

lemma strip_between:
  assumes "list_all is_space w" "list_all is_space w'"
    and "s = [] \<or> (\<not> is_space (hd s) \<and> \<not> is_space (last s))"
  shows "py_strip (w @ s @ w') = s"
proof (cases "s = []")
  case True
  with assms(1,2) have "\<forall>x\<in>set (w @ s @ w'). is_space x"
    by (auto simp: list_all_iff)
  then have "dropWhile is_space (w @ s @ w') = []"
    by (simp only: dropWhile_eq_Nil_conv)
  then have "py_strip (w @ s @ w') = []"
    by (simp only: py_strip_def rev.simps dropWhile.simps)
  with True show ?thesis by simp
next
  case False
  with assms(3) have ends: "\<not> is_space (hd s)" "\<not> is_space (last s)" by auto
  from assms(1) have "dropWhile is_space (w @ s @ w') = dropWhile is_space (s @ w')"
    by (intro dropWhile_append2) (simp add: list_all_iff)
  also from False ends(1) have "\<dots> = s @ w'"
    by (cases s) auto
  finally have 1: "dropWhile is_space (w @ s @ w') = s @ w'" .
  from assms(2) have "dropWhile is_space (rev w' @ rev s) = dropWhile is_space (rev s)"
    by (intro dropWhile_append2) (simp add: list_all_iff)
  also from False ends(2) have "\<dots> = rev s"
    by (cases "rev s") (auto simp: last_rev[symmetric] hd_rev)
  finally show ?thesis using 1 by (simp add: py_strip_def)
qed

lemma space_not_am_pm: "is_space c \<Longrightarrow> not_am_pm c"
  by (auto simp: is_space_def not_am_pm_def)

lemma time_char_not_am_pm: "time_char c \<Longrightarrow> not_am_pm c"
  by (auto simp: time_char_def is_digit_iff not_am_pm_def)

lemma time_char_not_space: "time_char c \<Longrightarrow> \<not> is_space c"
  by (auto simp: time_char_def is_digit_iff is_space_def)

lemma cleaned_suffix:
  assumes s: "list_all time_char s"
    and w: "list_all is_space w0" "list_all is_space w1" "list_all is_space w2"
    and m: "py_lower marker = ''am'' \<or> py_lower marker = ''pm''"
  shows "cleaned_time (w0 @ s @ w1 @ marker @ w2) = s"
proof -
  let ?x = "w0 @ s @ w1"
  have x: "list_all not_am_pm ?x" "list_all not_am_pm w2"
    using s w by (auto simp: list_all_iff dest: space_not_am_pm time_char_not_am_pm)
  have low: "py_lower (w0 @ s @ w1 @ marker @ w2) = ?x @ py_lower marker @ w2"
    using s w by (simp add: py_lower_append py_lower_id list_all_iff lower_space lower_time_char)
  have xa: "list_all (\<lambda>c. c \<noteq> hd ''am'') ?x" "list_all (\<lambda>c. c \<noteq> hd ''am'') w2"
    and xp: "list_all (\<lambda>c. c \<noteq> hd ''pm'') ?x" "list_all (\<lambda>c. c \<noteq> hd ''pm'') w2"
    using x by (auto simp: list_all_iff not_am_pm_def)
  have "py_replace ''pm'' [] (py_replace ''am'' [] (?x @ py_lower marker @ w2)) = ?x @ w2"
  proof (rule disjE[OF m])
    assume "py_lower marker = ''am''"
    then have "py_replace ''am'' [] (?x @ py_lower marker @ w2) = ?x @ w2"
      using replace_skip[OF _ xa(1), of "[]" "''am'' @ w2"] replace_hit[of "''am''" "[]" w2]
        replace_none[OF _ xa(2), of "[]"] by simp
    moreover have "py_replace ''pm'' [] (?x @ w2) = ?x @ w2"
      using replace_none[of "''pm''" "?x @ w2" "[]"] xp by simp
    ultimately show ?thesis by simp
  next
    assume pm: "py_lower marker = ''pm''"
    have "list_all (\<lambda>c. c \<noteq> hd ''am'') (?x @ ''pm'' @ w2)"
      using xa by simp
    then have "py_replace ''am'' [] (?x @ ''pm'' @ w2) = ?x @ ''pm'' @ w2"
      using replace_none[of "''am''" "?x @ ''pm'' @ w2" "[]"] by simp
    moreover have "py_replace ''pm'' [] (?x @ ''pm'' @ w2) = ?x @ w2"
      using replace_skip[OF _ xp(1), of "[]" "''pm'' @ w2"] replace_hit[of "''pm''" "[]" w2]
        replace_none[OF _ xp(2), of "[]"] by simp
    ultimately show ?thesis using pm by simp
  qed
  moreover have "py_strip (w0 @ s @ (w1 @ w2)) = s"
  proof (rule strip_between)
    show "s = [] \<or> (\<not> is_space (hd s) \<and> \<not> is_space (last s))"
      using s by (cases s) (auto simp: list_all_iff dest!: time_char_not_space)
  qed (use w in auto)
  ultimately show ?thesis using low by (simp add: cleaned_time_def)
qed

lemma cleaned_plain:
  assumes s: "list_all time_char s"
  shows "cleaned_time s = s"
proof -
  have "py_lower s = s"
    using s by (simp add: py_lower_id list_all_iff lower_time_char)
  moreover have "list_all (\<lambda>c. c \<noteq> hd ''am'') s" "list_all (\<lambda>c. c \<noteq> hd ''pm'') s"
    using s by (auto simp: list_all_iff not_am_pm_def dest!: time_char_not_am_pm)
  then have "py_replace ''am'' [] s = s" "py_replace ''pm'' [] s = s"
    by (simp_all add: replace_none)
  moreover have "py_strip ([] @ s @ []) = s"
  proof (rule strip_between)
    show "s = [] \<or> (\<not> is_space (hd s) \<and> \<not> is_space (last s))"
      using s by (cases s) (auto simp: list_all_iff dest!: time_char_not_space)
  qed auto
  ultimately show ?thesis by (simp add: cleaned_time_def)
qed

lemma parse_time_marker:
  assumes "time_obj s = Inr hms"
    and "list_all is_space w0" "list_all is_space w1" "list_all is_space w2"
    and "py_lower marker = ''am'' \<or> py_lower marker = ''pm''"
  shows "parse_time eastern (w0 @ s @ w1 @ marker @ w2) date_str is_pm = parse_time eastern s date_str is_pm"
proof -
  obtain h m sec where "hms = (h, m, sec)" by (cases hms) auto
  with assms(1) time_obj_Inr[of s h m sec] have tc: "list_all time_char s" by simp
  show ?thesis
    unfolding parse_time_def cleaned_suffix[OF tc assms(2-5)] cleaned_plain[OF tc] ..
qed

section \<open>Facts about the pass over the events\<close>

lemma prefix_take: "prefix p s \<longleftrightarrow> take (length p) s = p"
  by (metis append_eq_conv_conj prefix_def take_is_prefix)

lemma py_in_iff: "py_in pat s \<longleftrightarrow> (\<exists>k\<le>length s. take (length pat) (drop k s) = pat)"
proof (induction s)
  case Nil
  then show ?case by auto
next
  case (Cons c cs)
  have "(\<exists>k\<le>length (c # cs). take (length pat) (drop k (c # cs)) = pat)
        \<longleftrightarrow> take (length pat) (c # cs) = pat \<or> (\<exists>k\<le>length cs. take (length pat) (drop k cs) = pat)"
    (is "?L \<longleftrightarrow> ?A \<or> ?B")
  proof
    assume ?L
    then obtain k where k: "k \<le> length (c # cs)" "take (length pat) (drop k (c # cs)) = pat" by blast
    show "?A \<or> ?B"
    proof (cases k)
      case 0
      with k show ?thesis by simp
    next
      case (Suc j)
      with k have "j \<le> length cs" "take (length pat) (drop j cs) = pat" by auto
      then show ?thesis by blast
    qed
  next
    assume "?A \<or> ?B"
    then show ?L
    proof
      assume ?A
      then have "0 \<le> length (c # cs) \<and> take (length pat) (drop 0 (c # cs)) = pat" by simp
      then show ?L by blast
    next
      assume ?B
      then obtain j where "j \<le> length cs" "take (length pat) (drop j cs) = pat" by blast
      then have "Suc j \<le> length (c # cs) \<and> take (length pat) (drop (Suc j) (c # cs)) = pat" by simp
      then show ?L by blast
    qed
  qed
  with Cons show ?case by (simp add: prefix_take)
qed

lemma py_in_lower: "py_in pat (py_lower s) = occurs_ci pat s"
proof -
  have "occurs_ci pat s \<longleftrightarrow> (\<exists>k\<le>length s. py_lower (take (length pat) (drop k s)) = pat)"
    unfolding occurs_ci_def list_ex_iff set_upt by (auto simp: less_Suc_eq_le)
  then show ?thesis
    by (simp add: py_in_iff py_lower_def take_map drop_map)
qed

lemma says_music_end_ci: "says_music_end e = occurs_ci ''music end'' (ev_obs e)"
  by (simp add: says_music_end_def py_in_lower)

lemma session_scan_end:
  "snd (session_scan evs st fin) = (case find says_music_end evs of None \<Rightarrow> fin | Some e \<Rightarrow> Some (ev_time e))"
  by (induction evs st fin rule: session_scan.induct) (auto simp: Let_def)

lemma session_scan_start:
  "fst (session_scan evs None fin) = first_labelled (takeWhile (\<lambda>e. \<not> says_music_end e) evs @ take 1 (dropWhile (\<lambda>e. \<not> says_music_end e) evs))"
proof -
  have some: "fst (session_scan evs (Some t) fin) = Some t" for evs :: "'a event list" and t fin
    by (induction evs "Some t" fin rule: session_scan.induct) (auto simp: Let_def)
  show ?thesis
    by (induction evs "None :: 'a option" fin rule: session_scan.induct)
      (auto simp: Let_def first_labelled_def some)
qed

section \<open>Facts about the schedule loader\<close>

lemma all_events_rows:
  assumes "all_events eastern rows d pm = Inr evs"
  shows "list_all2 (\<lambda>row e. row_time eastern d pm row = Inr (ev_time e)
                     \<and> ev_song e = stripped (song_artist row)
                     \<and> ev_score e = stripped (score row)
                     \<and> ev_obs e = stripped (observation row))
           (filter (usable eastern d pm) rows) evs"
  using assms
proof (induction rows arbitrary: evs)
  case Nil
  then show ?case by simp
next
  case (Cons row rows)
  show ?case
  proof (cases "row_time eastern d pm row")
    case (Inl e)
    with Cons.prems have "all_events eastern rows d pm = Inr evs"
      by (auto simp: row_time_def split: if_splits)
    with Cons.IH Inl show ?thesis by (simp add: usable_def)
  next
    case (Inr t)
    with Cons.prems obtain rest where
      rest: "all_events eastern rows d pm = Inr rest"
        "evs = \<lparr>ev_time = t, ev_song = stripped (song_artist row),
                ev_score = stripped (score row), ev_obs = stripped (observation row)\<rparr> # rest"
      by (auto simp: row_time_def split: sum.splits)
    with Cons.IH[OF rest(1)] Inr show ?thesis by (simp add: usable_def)
  qed
qed

lemma all_events_skip:
  assumes "row_time eastern d pm bad = Inl ValueError"
  shows "all_events eastern (before @ bad # after) d pm = all_events eastern (before @ after) d pm"
  using assms by (induction before) (auto simp: row_time_def split: sum.splits)

lemma all_events_Inl:
  assumes "all_events eastern rows d pm = Inl x"
  shows "x \<noteq> ValueError \<and> x \<noteq> TypeError \<and> (\<exists>row\<in>set rows. row_time eastern d pm row = Inl x)"
  using assms
  by (induction rows) (auto simp: row_time_def split: sum.splits if_splits)

lemma parse_time_Inl:
  assumes "parse_time eastern txt d pm = Inl x" "x \<noteq> ValueError"
  shows "\<exists>dt. eastern dt = Inl x"
proof -
  have c: "strptime_compact s = Inl e \<Longrightarrow> e = ValueError" for s e
    unfolding strptime_compact_def by (auto split: list.splits if_splits prod.splits)
  from assms show ?thesis
    unfolding parse_time_def
    by (auto simp: Let_def split: sum.splits prod.splits dest: time_obj_Inl c)
qed

lemma load_Some:
  assumes "as_schedule f = Inr table"
    and "all_events eastern (dropna table) d (py_in ''afternoon'' (py_lower p)) = Inr evs"
    and "evs \<noteq> []"
  shows "load_music_schedule eastern (Some f) d p =
           Inr (Some \<lparr>annotations = map annotation_of evs,
                      music_start = fst (session_scan evs None None),
                      music_end = Some (case snd (session_scan evs None None) of
                                          None \<Rightarrow> ev_time (last evs) | Some t \<Rightarrow> t)\<rparr>)"
proof -
  from assms(2,3) have "dropna table \<noteq> []" by auto
  with assms show ?thesis
    unfolding load_music_schedule_def dropna_def[symmetric]
    by (auto simp: Let_def split: prod.splits option.splits)
qed

lemma load_Some_inv:
  assumes "load_music_schedule eastern (Some f) d p = Inr (Some sd)"
  shows "\<exists>table evs. as_schedule f = Inr table
           \<and> all_events eastern (dropna table) d (py_in ''afternoon'' (py_lower p)) = Inr evs \<and> evs \<noteq> []"
  using assms unfolding load_music_schedule_def dropna_def[symmetric]
  by (auto simp: Let_def split: sum.splits if_splits)

lemma strip_ends:
  "py_strip s = [] \<or> (\<not> is_space (hd (py_strip s)) \<and> \<not> is_space (last (py_strip s)))"
proof (cases "py_strip s = []")
  case True
  then show ?thesis by simp
next
  case False
  let ?ys = "dropWhile is_space s"
  let ?zs = "dropWhile is_space (rev ?ys)"
  from False have zs: "?zs \<noteq> []" by (simp add: py_strip_def)
  have ys: "?ys \<noteq> []"
  proof
    assume "?ys = []"
    then have "?zs = []" by (simp only: rev.simps dropWhile.simps)
    with zs show False by simp
  qed
  have "last (py_strip s) = hd ?zs"
    using zs by (simp add: py_strip_def last_rev)
  moreover have "\<not> is_space (hd ?zs)"
    using zs hd_dropWhile by blast
  moreover have "hd (py_strip s) = last ?zs"
    using zs by (simp add: py_strip_def hd_rev)
  moreover have "last ?zs = last (rev ?ys)"
    using zs by (metis append_Nil2 last_appendR takeWhile_dropWhile_id)
  moreover have "last (rev ?ys) = hd ?ys"
    using ys by (simp add: last_rev)
  moreover have "\<not> is_space (hd ?ys)"
    using ys hd_dropWhile by blast
  ultimately show ?thesis by simp
qed

lemma stripped_ends:
  "stripped c = [] \<or> (\<not> is_space (hd (stripped c)) \<and> \<not> is_space (last (stripped c)))"
  using strip_ends by (cases c) (auto simp: stripped_def)

lemma text_is_spec:
  "an_text (annotation_of e) = spec_text (ev_song e) (ev_score e) (ev_obs e)"
  by (simp add: annotation_of_def text_parts_def spec_text_def newline_def)

lemma spec_text_ends:
  assumes "a = [] \<or> (\<not> is_space (hd a) \<and> \<not> is_space (last a))"
    and "c = [] \<or> (\<not> is_space (hd c) \<and> \<not> is_space (last c))"
  shows "spec_text a b c = [] \<or> (\<not> is_space (hd (spec_text a b c)) \<and> \<not> is_space (last (spec_text a b c)))"
proof -
  have p: "\<not> is_space CHR ''(''" "\<not> is_space CHR '')''"
    by (simp_all add: is_space_def code_point_def)
  show ?thesis
    using assms p
    by (cases "a = []"; cases "b = []"; cases "c = []")
      (simp_all add: spec_text_def hd_append)
qed

section \<open>The time parser\<close>

text \<open>
  C4. A time text that \<open>strptime\<close> accepts as \<open>%H:%M:%S\<close> or \<open>%H:%M\<close>, followed by
  \<open>am\<close> or \<open>pm\<close> in any mix of upper and lower case, with any white space before the
  time, between the time and the marker and after the marker, parses to the same result
  as the bare text, for every date text and either value of the afternoon flag.
\<close>

theorem parse_time_ignores_marker:
  assumes "time_obj s = Inr hms"
    and "list_all is_space w0" and "list_all is_space w1" and "list_all is_space w2"
    and "py_lower marker = ''am'' \<or> py_lower marker = ''pm''"
  shows "parse_time eastern (w0 @ s @ w1 @ marker @ w2) date_str is_pm
           = parse_time eastern s date_str is_pm"
  using assms by (rule parse_time_marker)

theorem parse_time_ignores_marker_witness:
  "time_obj ''10:15:30'' = Inr (10, 15, 30)
   \<and> parse_time demo_eastern ('' '' @ ''10:15:30'' @ ''  '' @ ''pM'' @ [CHR 0x09]) ''20240105'' True
       = parse_time demo_eastern ''10:15:30'' ''20240105'' True
   \<and> parse_time demo_eastern ''10:15:30'' ''20240105'' True = Inr 80130"
proof -
  have t: "time_obj ''10:15:30'' = Inr (10, 15, 30)" by code_simp
  have w: "list_all is_space '' ''" "list_all is_space ''  ''" "list_all is_space [CHR 0x09]" by code_simp+
  have m: "py_lower ''pM'' = ''am'' \<or> py_lower ''pM'' = ''pm''" by code_simp
  have v: "parse_time demo_eastern ''10:15:30'' ''20240105'' True = Inr 80130" by code_simp
  from parse_time_ignores_marker[OF t w m, of demo_eastern "''20240105''" True] t v
  show ?thesis by blast
qed

text \<open>
  C5. When \<open>parse_time\<close> returns an instant, that instant is the one the time-zone library
  gives for a wall-clock time whose minute and second are those read from the cleaned
  text and whose hour is the hour read, plus 12 when the afternoon flag is set and the
  hour read is 1 to 11 (giving 13 to 23); with the flag set, the hours 0 and 12 stay as
  read, and without the flag every hour stays as read.
\<close>

theorem afternoon_hours:
  assumes "parse_time eastern txt date_str is_afternoon = Inr t"
  shows "\<exists>h mi se dt. time_obj (cleaned_time txt) = Inr (h, mi, se) \<and> eastern dt = Inr t
           \<and> c_minute dt = mi \<and> c_second dt = se
           \<and> (is_afternoon \<and> 1 \<le> h \<and> h \<le> 11 \<longrightarrow> c_hour dt = h + 12 \<and> 13 \<le> c_hour dt \<and> c_hour dt \<le> 23)
           \<and> (is_afternoon \<and> (h = 0 \<or> h = 12) \<longrightarrow> c_hour dt = h)
           \<and> (\<not> is_afternoon \<longrightarrow> c_hour dt = h)"
proof -
  from parse_time_Inr[OF assms] obtain h mi se dt where
    p: "time_obj (cleaned_time txt) = Inr (h, mi, se)" "eastern dt = Inr t"
       "c_hour dt = adjust_hour is_afternoon h" "c_minute dt = mi" "c_second dt = se"
    by blast
  have "(is_afternoon \<and> 1 \<le> h \<and> h \<le> 11 \<longrightarrow> c_hour dt = h + 12 \<and> 13 \<le> c_hour dt \<and> c_hour dt \<le> 23)
      \<and> (is_afternoon \<and> (h = 0 \<or> h = 12) \<longrightarrow> c_hour dt = h)
      \<and> (\<not> is_afternoon \<longrightarrow> c_hour dt = h)"
    using p(3) by (auto simp: adjust_hour_def)
  with p show ?thesis by blast
qed

theorem afternoon_hours_witness:
  "parse_time Inr ''11:59:59'' ''20240105'' True
     = Inr \<lparr>c_year = 2024, c_month = 1, c_day = 5, c_hour = 23, c_minute = 59, c_second = 59\<rparr>
   \<and> (\<exists>h mi se dt. time_obj (cleaned_time ''11:59:59'') = Inr (h, mi, se)
         \<and> (Inr dt :: py_exn + civil)
             = Inr \<lparr>c_year = 2024, c_month = 1, c_day = 5, c_hour = 23, c_minute = 59, c_second = 59\<rparr>
         \<and> c_hour dt = h + 12)"
proof -
  have v: "parse_time Inr ''11:59:59'' ''20240105'' True
     = Inr \<lparr>c_year = 2024, c_month = 1, c_day = 5, c_hour = 23, c_minute = 59, c_second = 59\<rparr>"
    by code_simp
  have c: "time_obj (cleaned_time ''11:59:59'') = Inr (11, 59, 59)" by code_simp
  from afternoon_hours[OF v] c v show ?thesis by auto
qed

section \<open>The schedule loader\<close>

lemma occurs_ci_pred: "(\<lambda>e. \<not> says_music_end e) = (\<lambda>e. \<not> occurs_ci ''music end'' (ev_obs e))"
  by (simp add: says_music_end_ci)

lemma find_music_end: "find says_music_end evs = find (\<lambda>e. occurs_ci ''music end'' (ev_obs e)) evs"
  by (induction evs) (simp_all add: says_music_end_ci)

lemma dropna_append: "dropna (xs @ ys) = dropna xs @ dropna ys"
  by (simp add: dropna_def)

lemma load_unfold:
  assumes "as_schedule f = Inr table"
  shows "load_music_schedule eastern (Some f) d p =
           (if dropna table = [] then Inr None
            else case all_events eastern (dropna table) d (py_in ''afternoon'' (py_lower p)) of
                   Inl e \<Rightarrow> Inl e
                 | Inr evs \<Rightarrow>
                     if evs = [] then Inr None
                     else Inr (Some \<lparr>annotations = map annotation_of evs,
                                     music_start = fst (session_scan evs None None),
                                     music_end = Some (case snd (session_scan evs None None) of
                                                         None \<Rightarrow> ev_time (last evs) | Some t \<Rightarrow> t)\<rparr>))"
  using assms unfolding load_music_schedule_def
  by (auto simp: Let_def split: prod.splits option.splits sum.splits)

text \<open>
  C2, as amended. For a schedule file that reads as a table with at least one usable row,
  the loader returns a schedule whose start is the instant of the first event with a
  label among the events up to and including the first one whose observation mentions
  \<open>music end\<close> (among all events when none does); the start is absent when none of
  these has a label. The pass of lines 163 to 173 stops at the \<open>music end\<close> row, so a
  label that comes only after it gives no start.
\<close>

theorem start_before_music_end:
  assumes "as_schedule f = Inr table"
    and "all_events eastern (dropna table) date_str (py_in ''afternoon'' (py_lower folder)) = Inr evs"
    and "evs \<noteq> []"
  shows "\<exists>sd. load_music_schedule eastern (Some f) date_str folder = Inr (Some sd)
           \<and> music_start sd = first_labelled (upto_music_end evs)"
  using load_Some[OF assms]
  by (simp add: session_scan_start upto_music_end_def occurs_ci_pred)

theorem start_before_music_end_witness:
  "all_events demo_eastern (dropna demo_rows) ''20240105'' (py_in ''afternoon'' (py_lower ''data/P01 morning'')) = Inr demo_events
   \<and> upto_music_end demo_events = take 4 demo_events
   \<and> first_labelled (upto_music_end demo_events) = Some 32400
   \<and> (\<exists>sd. load_music_schedule demo_eastern (Some (schedule_file demo_rows)) ''20240105'' ''data/P01 morning'' = Inr (Some sd)
         \<and> music_start sd = Some 32400)"
proof -
  have f: "as_schedule (schedule_file demo_rows) = Inr demo_rows" by (simp add: schedule_file_def)
  have e: "all_events demo_eastern (dropna demo_rows) ''20240105'' (py_in ''afternoon'' (py_lower ''data/P01 morning'')) = Inr demo_events"
    by code_simp
  have n: "demo_events \<noteq> []" by (simp add: demo_events_def)
  have u: "upto_music_end demo_events = take 4 demo_events" by code_simp
  have l: "first_labelled (upto_music_end demo_events) = Some 32400" by code_simp
  from start_before_music_end[OF f e n] e u l show ?thesis by simp
qed

text \<open>
  The claim as the specification words it fails on the schedule whose first row says
  \<open>Music end\<close> at 09:00 and whose second row has the label \<open>SongA\<close> at 09:05: the first
  row with a label is the one of 09:05, and the start the loader returns is absent.
\<close>

theorem start_after_music_end_counterexample:
  "all_events demo_eastern (dropna late_song_rows) ''20240105'' False = Inr late_song_events
   \<and> first_labelled late_song_events = Some 32700
   \<and> load_music_schedule demo_eastern (Some (schedule_file late_song_rows)) ''20240105'' ''data/P01 morning''
       = Inr (Some late_song_schedule)
   \<and> music_start late_song_schedule = None"
  by code_simp

text \<open>
  C3. For a schedule file that reads as a table with at least one usable row, the loader
  returns a schedule whose end is the instant of the first event, in file order, whose
  observation contains \<open>music end\<close> whatever the case of its letters, and the instant of
  the last event when there is none.
\<close>

theorem end_of_music:
  assumes "as_schedule f = Inr table"
    and "all_events eastern (dropna table) date_str (py_in ''afternoon'' (py_lower folder)) = Inr evs"
    and "evs \<noteq> []"
  shows "\<exists>sd. load_music_schedule eastern (Some f) date_str folder = Inr (Some sd)
           \<and> music_end sd = Some (case find (\<lambda>e. occurs_ci ''music end'' (ev_obs e)) evs of
                                     Some e \<Rightarrow> ev_time e
                                   | None \<Rightarrow> ev_time (last evs))"
  using load_Some[OF assms]
  by (simp add: session_scan_end find_music_end split: option.splits)

theorem end_of_music_witness:
  "all_events demo_eastern (dropna demo_rows) ''20240105'' (py_in ''afternoon'' (py_lower ''data/P01 morning'')) = Inr demo_events
   \<and> find (\<lambda>e. occurs_ci ''music end'' (ev_obs e)) demo_events
       = Some \<lparr>ev_time = 33000, ev_song = [], ev_score = [], ev_obs = ''Music End''\<rparr>
   \<and> (\<exists>sd. load_music_schedule demo_eastern (Some (schedule_file demo_rows)) ''20240105'' ''data/P01 morning'' = Inr (Some sd)
         \<and> music_end sd = Some 33000)"
proof -
  have f: "as_schedule (schedule_file demo_rows) = Inr demo_rows" by (simp add: schedule_file_def)
  have e: "all_events demo_eastern (dropna demo_rows) ''20240105'' (py_in ''afternoon'' (py_lower ''data/P01 morning'')) = Inr demo_events"
    by code_simp
  have n: "demo_events \<noteq> []" by (simp add: demo_events_def)
  have u: "find (\<lambda>e. occurs_ci ''music end'' (ev_obs e)) demo_events
       = Some \<lparr>ev_time = 33000, ev_song = [], ev_score = [], ev_obs = ''Music End''\<rparr>" by code_simp
  from end_of_music[OF f e n] e u show ?thesis by simp
qed

text \<open>
  C6, as amended. When the loader returns a schedule, its annotations correspond one to
  one, in order, to the rows left by \<open>dropna\<close> whose time parses: the annotation has the
  instant of the row, and its text joins with line feeds the label if it is not empty,
  the score between \<open>(Score: \<close> and \<open>)\<close> if it is not empty, and the observation if it
  is not empty. Each of the three is the text \<open>str\<close> gives for the value pandas holds,
  without the white space at its ends, and empty for NaN: a whole number held as a float
  is written with \<open>.0\<close>. The text is empty or begins and ends with a character that is
  not white space, hence has no blank first or last line; for three empty fields it is
  the empty text.
\<close>

theorem one_annotation_per_usable_row:
  assumes "as_schedule f = Inr table"
    and "load_music_schedule (eastern :: civil \<Rightarrow> py_exn + 't) (Some f) date_str folder = Inr (Some sd)"
  shows "list_all2
           (\<lambda>row a. row_time eastern date_str (py_in ''afternoon'' (py_lower folder)) row = Inr (an_time a)
                   \<and> an_text a = spec_text (stripped (song_artist row)) (stripped (score row)) (stripped (observation row))
                   \<and> clean_edges (an_text a))
           (filter (usable eastern date_str (py_in ''afternoon'' (py_lower folder))) (dropna table))
           (annotations sd)
         \<and> spec_text [] [] [] = []"
proof -
  let ?pm = "py_in ''afternoon'' (py_lower folder)"
  from load_Some_inv[OF assms(2)] assms(1) obtain evs where
    evs: "all_events eastern (dropna table) date_str ?pm = Inr evs" "evs \<noteq> []" by auto
  from load_Some[OF assms(1) evs] assms(2) have a: "annotations sd = map annotation_of evs" by auto
  have "list_all2
           (\<lambda>row a. row_time eastern date_str ?pm row = Inr (an_time a)
                   \<and> an_text a = spec_text (stripped (song_artist row)) (stripped (score row)) (stripped (observation row))
                   \<and> clean_edges (an_text a))
           (filter (usable eastern date_str ?pm) (dropna table)) (map annotation_of evs)"
    unfolding list_all2_map2
  proof (rule list_all2_mono[OF all_events_rows[OF evs(1)]])
    fix row :: sched_row and e :: "'t event"
    assume r: "row_time eastern date_str ?pm row = Inr (ev_time e) \<and> ev_song e = stripped (song_artist row)
                 \<and> ev_score e = stripped (score row) \<and> ev_obs e = stripped (observation row)"
    have "clean_edges (spec_text (stripped (song_artist row)) (stripped (score row)) (stripped (observation row)))"
      unfolding clean_edges_def by (rule spec_text_ends) (rule stripped_ends)+
    with r show "row_time eastern date_str ?pm row = Inr (an_time (annotation_of e))
            \<and> an_text (annotation_of e) = spec_text (stripped (song_artist row)) (stripped (score row)) (stripped (observation row))
            \<and> clean_edges (an_text (annotation_of e))"
      by (simp add: text_is_spec) (simp add: annotation_of_def)
  qed
  moreover have "spec_text [] [] [] = []" by (simp add: spec_text_def)
  ultimately show ?thesis using a by simp
qed

theorem one_annotation_per_usable_row_witness:
  "load_music_schedule demo_eastern (Some (schedule_file demo_rows)) ''20240105'' ''data/P01 morning'' = Inr (Some demo_schedule)
   \<and> length (filter (usable demo_eastern ''20240105'' (py_in ''afternoon'' (py_lower ''data/P01 morning''))) (dropna demo_rows)) = 5
   \<and> length (annotations demo_schedule) = 5
   \<and> map an_text (annotations demo_schedule)
        = [''SongA'' @ CHR 0x0A # ''(Score: 8.0)'', ''SongB'' @ CHR 0x0A # ''(Score: 9.0)'', [], ''Music End'',
           ''SongC'' @ CHR 0x0A # ''encore'']"
proof -
  have f: "as_schedule (schedule_file demo_rows) = Inr demo_rows" by (simp add: schedule_file_def)
  have l: "load_music_schedule demo_eastern (Some (schedule_file demo_rows)) ''20240105'' ''data/P01 morning'' = Inr (Some demo_schedule)"
    by code_simp
  have u: "length (filter (usable demo_eastern ''20240105'' (py_in ''afternoon'' (py_lower ''data/P01 morning''))) (dropna demo_rows)) = 5"
    by code_simp
  have t: "map an_text (annotations demo_schedule)
        = [''SongA'' @ CHR 0x0A # ''(Score: 8.0)'', ''SongB'' @ CHR 0x0A # ''(Score: 9.0)'', [], ''Music End'',
           ''SongC'' @ CHR 0x0A # ''encore'']"
    by (simp add: demo_schedule_def demo_annotations_def)
  from one_annotation_per_usable_row[OF f l] have "length (filter (usable demo_eastern ''20240105'' (py_in ''afternoon'' (py_lower ''data/P01 morning''))) (dropna demo_rows)) = length (annotations demo_schedule)"
    by (auto dest: list_all2_lengthD)
  with l u t show ?thesis by simp
qed

text \<open>
  The claim as the specification words it fails on its own scenario: the scores 8 and 9
  stand in a column with an empty field, pandas holds them as the floats 8.0 and 9.0, and
  the annotations read \<open>(Score: 8.0)\<close> and \<open>(Score: 9.0)\<close>, not \<open>(Score: 8)\<close> and
  \<open>(Score: 9)\<close>.
\<close>

theorem score_of_float_column_counterexample:
  "load_music_schedule demo_eastern (Some (schedule_file scenario_rows)) ''20240105'' ''data/P01 morning''
     = Inr (Some scenario_schedule)
   \<and> map an_text (annotations scenario_schedule)
       = [''SongA'' @ CHR 0x0A # ''(Score: 8.0)'', ''SongB'' @ CHR 0x0A # ''(Score: 9.0)'', ''Music end'']
   \<and> map claimed_text scenario_rows
       = [''SongA'' @ CHR 0x0A # ''(Score: 8)'', ''SongB'' @ CHR 0x0A # ''(Score: 9)'', ''Music end'']
   \<and> map an_text (annotations scenario_schedule) \<noteq> map claimed_text scenario_rows"
  by code_simp

text \<open>
  C7. A row whose time text is accepted by neither format is skipped: the loader returns
  for the table with that row exactly what it returns for the table without it, so the
  row gives no annotation and no bound of the window, and the rows after it are treated
  as before. No \<open>ValueError\<close> or \<open>TypeError\<close> leaves the loader: an exception that does
  is one the time-zone library raised.
\<close>

theorem bad_time_row_skipped:
  assumes "time_obj (cleaned_time (py_strip (py_str (time_str bad)))) = Inl e"
    and "as_schedule f = Inr (before @ bad # after)"
    and "as_schedule g = Inr (before @ after)"
  shows "load_music_schedule eastern (Some f) date_str folder
           = load_music_schedule eastern (Some g) date_str folder
         \<and> (\<forall>x. load_music_schedule eastern (Some f) date_str folder = Inl x
                \<longrightarrow> x \<noteq> ValueError \<and> x \<noteq> TypeError \<and> (\<exists>dt. eastern dt = Inl x))"
proof -
  let ?pm = "py_in ''afternoon'' (py_lower folder)"
  have bad: "row_time eastern date_str ?pm bad = Inl ValueError"
    unfolding row_time_def by (rule parse_time_Inl_time[OF assms(1)])
  have skip: "all_events eastern (dropna (before @ bad # after)) date_str ?pm
                = all_events eastern (dropna (before @ after)) date_str ?pm"
  proof (cases "all_na bad")
    case True
    then show ?thesis by (simp add: dropna_def)
  next
    case False
    then have "dropna (before @ bad # after) = dropna before @ bad # dropna after"
      by (simp add: dropna_def)
    then show ?thesis
      using all_events_skip[OF bad, of "dropna before" "dropna after"] by (simp add: dropna_append)
  qed
  have same: "load_music_schedule eastern (Some f) date_str folder
                = load_music_schedule eastern (Some g) date_str folder"
  proof (cases "dropna (before @ after) = []")
    case True
    then have "all_events eastern (dropna (before @ bad # after)) date_str ?pm = Inr []"
      using skip by simp
    with True show ?thesis
      unfolding load_unfold[OF assms(2)] load_unfold[OF assms(3)] by simp
  next
    case False
    then have "dropna (before @ bad # after) \<noteq> []" by (auto simp: dropna_def)
    with False show ?thesis
      unfolding load_unfold[OF assms(2)] load_unfold[OF assms(3)] skip by simp
  qed
  have leave: "x \<noteq> ValueError \<and> x \<noteq> TypeError \<and> (\<exists>dt. eastern dt = Inl x)"
    if "load_music_schedule eastern (Some f) date_str folder = Inl x" for x
  proof -
    from that have "all_events eastern (dropna (before @ bad # after)) date_str ?pm = Inl x"
      unfolding load_unfold[OF assms(2)] by (auto split: if_splits sum.splits)
    from all_events_Inl[OF this] obtain row where
      x: "x \<noteq> ValueError" "x \<noteq> TypeError" "row_time eastern date_str ?pm row = Inl x" by blast
    from parse_time_Inl[OF x(3)[unfolded row_time_def] x(1)] x(1,2) show ?thesis by simp
  qed
  from same leave show ?thesis by blast
qed

theorem bad_time_row_skipped_witness:
  "time_obj (cleaned_time (py_strip (py_str (time_str row_bad)))) = Inl ValueError
   \<and> load_music_schedule demo_eastern (Some (schedule_file ([row_songA] @ row_bad # rows_after))) ''20240105'' ''data/P01 morning''
       = load_music_schedule demo_eastern (Some (schedule_file ([row_songA] @ rows_after))) ''20240105'' ''data/P01 morning''
   \<and> load_music_schedule demo_eastern (Some (schedule_file ([row_songA] @ rows_after))) ''20240105'' ''data/P01 morning''
       = Inr (Some demo_schedule)"
proof -
  have b: "time_obj (cleaned_time (py_strip (py_str (time_str row_bad)))) = Inl ValueError" by code_simp
  have f: "as_schedule (schedule_file ([row_songA] @ row_bad # rows_after)) = Inr ([row_songA] @ row_bad # rows_after)"
    and g: "as_schedule (schedule_file ([row_songA] @ rows_after)) = Inr ([row_songA] @ rows_after)"
    by (simp_all add: schedule_file_def)
  have v: "load_music_schedule demo_eastern (Some (schedule_file ([row_songA] @ rows_after))) ''20240105'' ''data/P01 morning''
       = Inr (Some demo_schedule)" by code_simp
  from bad_time_row_skipped[OF b f g, of demo_eastern "''20240105''" "''data/P01 morning''"] b v
  show ?thesis by simp
qed

text \<open>
  C10. When the loader returns a schedule, every annotation is at the instant the time-zone
  library gives for a wall-clock time whose hour is the hour read from the cleaned time
  text of its row (the text without any \<open>am\<close> or \<open>pm\<close>), plus 12 exactly when the
  lower-cased folder path contains \<open>afternoon\<close> and that hour is 1 to 11. The folder path
  matters through this test only: any path with the same outcome gives the same schedule.
\<close>

theorem afternoon_from_folder_path:
  assumes "as_schedule f = Inr table"
    and "load_music_schedule (eastern :: civil \<Rightarrow> py_exn + 't) (Some f) date_str folder = Inr (Some sd)"
  shows "list_all2
           (\<lambda>row a. \<exists>h mi se dt.
                time_obj (cleaned_time (py_strip (py_str (time_str row)))) = Inr (h, mi, se)
              \<and> eastern dt = Inr (an_time a)
              \<and> c_hour dt = (if py_in ''afternoon'' (py_lower folder) \<and> 1 \<le> h \<and> h \<le> 11 then h + 12 else h))
           (filter (usable eastern date_str (py_in ''afternoon'' (py_lower folder))) (dropna table))
           (annotations sd)
         \<and> (\<forall>other. py_in ''afternoon'' (py_lower other) = py_in ''afternoon'' (py_lower folder)
                \<longrightarrow> load_music_schedule eastern (Some f) date_str other = Inr (Some sd))"
proof -
  let ?pm = "py_in ''afternoon'' (py_lower folder)"
  from load_Some_inv[OF assms(2)] assms(1) obtain evs where
    evs: "all_events eastern (dropna table) date_str ?pm = Inr evs" "evs \<noteq> []" by auto
  from load_Some[OF assms(1) evs] assms(2) have a: "annotations sd = map annotation_of evs" by auto
  have "list_all2
           (\<lambda>row a. \<exists>h mi se dt.
                time_obj (cleaned_time (py_strip (py_str (time_str row)))) = Inr (h, mi, se)
              \<and> eastern dt = Inr (an_time a)
              \<and> c_hour dt = (if ?pm \<and> 1 \<le> h \<and> h \<le> 11 then h + 12 else h))
           (filter (usable eastern date_str ?pm) (dropna table)) (map annotation_of evs)"
    unfolding list_all2_map2
  proof (rule list_all2_mono[OF all_events_rows[OF evs(1)]])
    fix row :: sched_row and e :: "'t event"
    assume "row_time eastern date_str ?pm row = Inr (ev_time e) \<and> ev_song e = stripped (song_artist row)
                 \<and> ev_score e = stripped (score row) \<and> ev_obs e = stripped (observation row)"
    then have "parse_time eastern (py_strip (py_str (time_str row))) date_str ?pm = Inr (ev_time e)"
      by (simp add: row_time_def)
    from parse_time_Inr[OF this] obtain h mi se dt where
      "time_obj (cleaned_time (py_strip (py_str (time_str row)))) = Inr (h, mi, se)"
      "eastern dt = Inr (ev_time e)" "c_hour dt = adjust_hour ?pm h"
      by blast
    then show "\<exists>h mi se dt.
                time_obj (cleaned_time (py_strip (py_str (time_str row)))) = Inr (h, mi, se)
              \<and> eastern dt = Inr (an_time (annotation_of e))
              \<and> c_hour dt = (if ?pm \<and> 1 \<le> h \<and> h \<le> 11 then h + 12 else h)"
      by (intro exI[of _ h] exI[of _ mi] exI[of _ se] exI[of _ dt])
        (simp add: adjust_hour_def annotation_of_def)
  qed
  moreover have "load_music_schedule eastern (Some f) date_str other = Inr (Some sd)"
    if "py_in ''afternoon'' (py_lower other) = ?pm" for other
  proof -
    have "load_music_schedule eastern (Some f) date_str other
            = load_music_schedule eastern (Some f) date_str folder"
      unfolding load_unfold[OF assms(1)] that ..
    with assms(2) show ?thesis by simp
  qed
  ultimately show ?thesis using a by simp
qed

theorem afternoon_from_folder_path_witness:
  "py_in ''afternoon'' (py_lower ''data/P01 Afternoon'')
   \<and> load_music_schedule demo_eastern (Some (schedule_file [row_songA, rows_after ! 1, rows_after ! 2])) ''20240105'' ''data/P01 Afternoon''
       = Inr (Some \<lparr>annotations = [\<lparr>an_time = 75600, an_text = ''SongA'' @ CHR 0x0A # ''(Score: 8.0)''\<rparr>,
                                    \<lparr>an_time = 75900, an_text = ''SongB'' @ CHR 0x0A # ''(Score: 9.0)''\<rparr>,
                                    \<lparr>an_time = 76020, an_text = []\<rparr>],
                     music_start = Some 75600, music_end = Some 76020\<rparr>)
   \<and> load_music_schedule demo_eastern (Some (schedule_file [row_songA, rows_after ! 1, rows_after ! 2])) ''20240105'' ''AFTERNOON''
       = Inr (Some \<lparr>annotations = [\<lparr>an_time = 75600, an_text = ''SongA'' @ CHR 0x0A # ''(Score: 8.0)''\<rparr>,
                                    \<lparr>an_time = 75900, an_text = ''SongB'' @ CHR 0x0A # ''(Score: 9.0)''\<rparr>,
                                    \<lparr>an_time = 76020, an_text = []\<rparr>],
                     music_start = Some 75600, music_end = Some 76020\<rparr>)"
proof -
  have p: "py_in ''afternoon'' (py_lower ''data/P01 Afternoon'')" by code_simp
  have q: "py_in ''afternoon'' (py_lower ''AFTERNOON'') = py_in ''afternoon'' (py_lower ''data/P01 Afternoon'')" by code_simp
  have f: "as_schedule (schedule_file [row_songA, rows_after ! 1, rows_after ! 2]) = Inr [row_songA, rows_after ! 1, rows_after ! 2]"
    by (simp add: schedule_file_def)
  have l: "load_music_schedule demo_eastern (Some (schedule_file [row_songA, rows_after ! 1, rows_after ! 2])) ''20240105'' ''data/P01 Afternoon''
       = Inr (Some \<lparr>annotations = [\<lparr>an_time = 75600, an_text = ''SongA'' @ CHR 0x0A # ''(Score: 8.0)''\<rparr>,
                                    \<lparr>an_time = 75900, an_text = ''SongB'' @ CHR 0x0A # ''(Score: 9.0)''\<rparr>,
                                    \<lparr>an_time = 76020, an_text = []\<rparr>],
                     music_start = Some 75600, music_end = Some 76020\<rparr>)"
    by code_simp
  from afternoon_from_folder_path[OF f l] q p l show ?thesis by blast
qed

section \<open>Facts about dates in file names\<close>

lemma code_point_more [simp]: "code_point CHR ''-'' = 45" "code_point CHR ''4'' = 52"
  "code_point CHR ''7'' = 55" "code_point CHR ''8'' = 56"
  by (simp_all add: code_point_def)

lemma digit_not_hyphen: "is_digit c \<Longrightarrow> c \<noteq> CHR ''-''"
  by (auto simp: is_digit_iff)

lemma digit_not_blank: "is_digit c \<Longrightarrow> c \<noteq> CHR '' ''"
  by (auto simp: is_digit_iff)

lemma between_digit:
  "between lo hi c \<Longrightarrow> 48 \<le> code_point lo \<Longrightarrow> code_point hi \<le> 57 \<Longrightarrow> is_digit c"
  by (auto simp: is_digit_iff between_def)

lemma number_of_one: "c \<noteq> CHR '' '' \<Longrightarrow> number_of [c] = digit_val c"
  by (simp add: number_of_def)

lemma number_of_two:
  "a \<noteq> CHR '' '' \<Longrightarrow> b \<noteq> CHR '' '' \<Longrightarrow> number_of [a, b] = 10 * digit_val a + digit_val b"
  by (simp add: number_of_def)

lemma number_of_blank: "b \<noteq> CHR '' '' \<Longrightarrow> number_of [CHR '' '', b] = digit_val b"
  by (simp add: number_of_def)

lemma blank_then_shape2:
  assumes "(v, r) \<in> set (blank_then q s)"
  shows "\<exists>b. s = CHR '' '' # b # r \<and> q b \<and> v = digit_val b"
  using assms by (induction q s rule: blank_then.induct) (auto split: if_splits)

lemma rx_m_text:
  assumes "(v, r) \<in> set (rx_m s)"
  shows "\<exists>t. s = t @ r \<and> month_text t \<and> number_of t = v \<and> list_all is_digit t"
proof -
  from assms consider
    (a) "(v, r) \<in> set (two_chars (\<lambda>c. c = CHR ''1'') (between CHR ''0'' CHR ''2'') s)"
  | (b) "(v, r) \<in> set (two_chars (\<lambda>c. c = CHR ''0'') (between CHR ''1'' CHR ''9'') s)"
  | (c) "(v, r) \<in> set (one_char (between CHR ''1'' CHR ''9'') s)"
    unfolding rx_m_def by auto
  then show ?thesis
  proof cases
    case a
    from two_chars_shape[OF a] obtain x y where
      s: "s = [x, y] @ r" "x = CHR ''1''" "between CHR ''0'' CHR ''2'' y" "v = 10 * digit_val x + digit_val y"
      by auto
    from s(3) have dy: "is_digit y" by (rule between_digit) simp_all
    from s(2) have dx: "is_digit x" by (simp add: is_digit_iff)
    from s dx dy have "month_text [x, y] \<and> number_of [x, y] = v \<and> list_all is_digit [x, y]"
      by (simp add: month_text_def number_of_two digit_not_blank)
    with s(1) show ?thesis by blast
  next
    case b
    from two_chars_shape[OF b] obtain x y where
      s: "s = [x, y] @ r" "x = CHR ''0''" "between CHR ''1'' CHR ''9'' y" "v = 10 * digit_val x + digit_val y"
      by auto
    from s(3) have dy: "is_digit y" by (rule between_digit) simp_all
    from s(2) have dx: "is_digit x" by (simp add: is_digit_iff)
    from s dx dy have "month_text [x, y] \<and> number_of [x, y] = v \<and> list_all is_digit [x, y]"
      by (simp add: month_text_def number_of_two digit_not_blank)
    with s(1) show ?thesis by blast
  next
    case c
    from one_char_shape[OF c] obtain x where
      s: "s = [x] @ r" "between CHR ''1'' CHR ''9'' x" "v = digit_val x" by auto
    from s(2) have dx: "is_digit x" by (rule between_digit) simp_all
    from s dx have "month_text [x] \<and> number_of [x] = v \<and> list_all is_digit [x]"
      by (simp add: month_text_def number_of_one digit_not_blank)
    with s(1) show ?thesis by blast
  qed
qed

lemma rx_d_text:
  assumes "(v, r) \<in> set (rx_d s)"
  shows "\<exists>t. s = t @ r \<and> day_text t \<and> number_of t = v"
proof -
  from assms consider
    (a) "(v, r) \<in> set (two_chars (\<lambda>c. c = CHR ''3'') (between CHR ''0'' CHR ''1'') s)"
  | (b) "(v, r) \<in> set (two_chars (between CHR ''1'' CHR ''2'') is_digit s)"
  | (c) "(v, r) \<in> set (two_chars (\<lambda>c. c = CHR ''0'') (between CHR ''1'' CHR ''9'') s)"
  | (d) "(v, r) \<in> set (one_char (between CHR ''1'' CHR ''9'') s)"
  | (e) "(v, r) \<in> set (blank_then (between CHR ''1'' CHR ''9'') s)"
    unfolding rx_d_def by auto
  then show ?thesis
  proof cases
    case a
    from two_chars_shape[OF a] obtain x y where
      s: "s = [x, y] @ r" "x = CHR ''3''" "between CHR ''0'' CHR ''1'' y" "v = 10 * digit_val x + digit_val y"
      by auto
    from s(3) have dy: "is_digit y" by (rule between_digit) simp_all
    from s dy have "day_text [x, y] \<and> number_of [x, y] = v"
      by (simp add: day_text_def number_of_two digit_not_blank)
    with s(1) show ?thesis by blast
  next
    case b
    from two_chars_shape[OF b] obtain x y where
      s: "s = [x, y] @ r" "between CHR ''1'' CHR ''2'' x" "is_digit y" "v = 10 * digit_val x + digit_val y"
      by auto
    from s(2) have dx: "is_digit x" by (rule between_digit) simp_all
    from s dx have "day_text [x, y] \<and> number_of [x, y] = v"
      by (simp add: day_text_def number_of_two digit_not_blank)
    with s(1) show ?thesis by blast
  next
    case c
    from two_chars_shape[OF c] obtain x y where
      s: "s = [x, y] @ r" "x = CHR ''0''" "between CHR ''1'' CHR ''9'' y" "v = 10 * digit_val x + digit_val y"
      by auto
    from s(3) have dy: "is_digit y" by (rule between_digit) simp_all
    from s dy have "day_text [x, y] \<and> number_of [x, y] = v"
      by (simp add: day_text_def number_of_two digit_not_blank)
    with s(1) show ?thesis by blast
  next
    case d
    from one_char_shape[OF d] obtain x where
      s: "s = [x] @ r" "between CHR ''1'' CHR ''9'' x" "v = digit_val x" by auto
    from s(2) have dx: "is_digit x" by (rule between_digit) simp_all
    from s dx have "day_text [x] \<and> number_of [x] = v"
      by (simp add: day_text_def number_of_one digit_not_blank)
    with s(1) show ?thesis by blast
  next
    case e
    from blank_then_shape2[OF e] obtain y where
      s: "s = [CHR '' '', y] @ r" "between CHR ''1'' CHR ''9'' y" "v = digit_val y" by auto
    from s(2) have dy: "is_digit y" by (rule between_digit) simp_all
    from s dy have "day_text [CHR '' '', y] \<and> number_of [CHR '' '', y] = v"
      by (simp add: day_text_def number_of_blank digit_not_blank)
    with s(1) show ?thesis by blast
  qed
qed

lemma rx_Y_text:
  assumes "(v, r) \<in> set (rx_Y s)"
  shows "\<exists>a b c e. s = a # b # c # e # r \<and> is_digit a \<and> is_digit b \<and> is_digit c \<and> is_digit e
           \<and> number_of [a, b, c, e] = v"
  using assms
  by (induction s rule: rx_Y.induct) (auto split: if_splits simp: number_of_def digit_not_blank)

lemma strptime_Ymd_date_token:
  assumes "strptime_Ymd tok = Inr ymd"
  shows "date_token tok"
proof -
  from assms obtain y m d where
    hd: "((y, m, d), []) \<in> set (match_Ymd tok)" and v: "valid_date y m d"
    unfolding strptime_Ymd_def by (auto split: list.splits if_splits prod.splits)
  from hd obtain r1 r2 r3 r4 where
    Y: "(y, r1) \<in> set (rx_Y tok)" and c1: "r2 \<in> set (rx_lit CHR ''-'' r1)" and
    M: "(m, r3) \<in> set (rx_m r2)" and c2: "r4 \<in> set (rx_lit CHR ''-'' r3)" and
    D: "(d, []) \<in> set (rx_d r4)"
    unfolding match_Ymd_def by auto
  from rx_Y_text[OF Y] obtain a b c e where
    y: "tok = a # b # c # e # r1" "is_digit a" "is_digit b" "is_digit c" "is_digit e"
       "number_of [a, b, c, e] = y" by blast
  from rx_m_text[OF M] obtain ms where
    m: "r2 = ms @ r3" "month_text ms" "number_of ms = m" "list_all is_digit ms" by blast
  from rx_d_text[OF D] obtain ds where
    d: "r4 = ds" "day_text ds" "number_of ds = d" by auto
  from rx_lit_shape[OF c1] rx_lit_shape[OF c2] y(1) m(1) d(1)
  have tok: "tok = a # b # c # e # CHR ''-'' # ms @ CHR ''-'' # ds" by simp
  have "\<forall>x\<in>set ms. x \<noteq> CHR ''-''"
    using m(4) by (auto simp: list_all_iff dest: digit_not_hyphen)
  then have tw: "takeWhile (\<lambda>x. x \<noteq> CHR ''-'') (ms @ CHR ''-'' # ds) = ms"
    by (simp add: takeWhile_append2)
  show ?thesis
    unfolding date_token_def tok using y m d v tw by (simp add: Let_def)
qed

lemma rx_d_first:
  assumes "day_text ds"
  shows "\<exists>more. rx_d ds = (number_of ds, []) # more"
proof -
  from assms consider
    (one) x where "ds = [x]" "between CHR ''1'' CHR ''9'' x"
  | (blank) y where "ds = [CHR '' '', y]" "between CHR ''1'' CHR ''9'' y"
  | (zero) y where "ds = [CHR ''0'', y]" "between CHR ''1'' CHR ''9'' y"
  | (teen) x y where "ds = [x, y]" "between CHR ''1'' CHR ''2'' x" "is_digit y"
  | (thirty) y where "ds = [CHR ''3'', y]" "between CHR ''0'' CHR ''1'' y"
    unfolding day_text_def by (auto split: list.splits)
  then show ?thesis
  proof cases
    case one
    then have "x \<noteq> CHR '' ''" by (auto simp: between_def)
    with one show ?thesis by (simp add: rx_d_def number_of_def)
  next
    case blank
    then have "y \<noteq> CHR '' ''" by (auto simp: between_def)
    with blank show ?thesis by (simp add: rx_d_def number_of_def between_def)
  next
    case zero
    then have "y \<noteq> CHR '' ''" by (auto simp: between_def)
    with zero show ?thesis by (simp add: rx_d_def number_of_def between_def)
  next
    case teen
    then have "x \<noteq> CHR '' ''" "y \<noteq> CHR '' ''" "x \<noteq> CHR ''3''"
      by (auto simp: between_def is_digit_iff)
    with teen show ?thesis by (simp add: rx_d_def number_of_def)
  next
    case thirty
    then have "y \<noteq> CHR '' ''" by (auto simp: between_def)
    with thirty show ?thesis by (simp add: rx_d_def number_of_def)
  qed
qed

lemma rx_m_first:
  assumes "month_text ms"
  shows "\<exists>more. rx_m (ms @ CHR ''-'' # t) = (number_of ms, CHR ''-'' # t) # more"
proof -
  from assms consider
    (one) x where "ms = [x]" "between CHR ''1'' CHR ''9'' x"
  | (zero) y where "ms = [CHR ''0'', y]" "between CHR ''1'' CHR ''9'' y"
  | (ten) y where "ms = [CHR ''1'', y]" "between CHR ''0'' CHR ''2'' y"
    unfolding month_text_def by (auto split: list.splits)
  then show ?thesis
  proof cases
    case one
    then have "x \<noteq> CHR '' ''" by (auto simp: between_def)
    with one show ?thesis by (simp add: rx_m_def number_of_def between_def)
  next
    case zero
    then have "y \<noteq> CHR '' ''" by (auto simp: between_def)
    with zero show ?thesis by (simp add: rx_m_def number_of_def between_def)
  next
    case ten
    then have "y \<noteq> CHR '' ''" by (auto simp: between_def)
    with ten show ?thesis by (simp add: rx_m_def number_of_def)
  qed
qed

lemma five_or_more:
  assumes "case tok of a # b # c # e # h # rest \<Rightarrow> P a b c e h rest | _ \<Rightarrow> False"
  shows "\<exists>a b c e h rest. tok = a # b # c # e # h # rest \<and> P a b c e h rest"
  using assms by (auto split: list.splits)

lemma date_token_parts:
  assumes "date_token tok"
  shows "\<exists>a b c e ms ds. tok = a # b # c # e # CHR ''-'' # ms @ CHR ''-'' # ds
           \<and> is_digit a \<and> is_digit b \<and> is_digit c \<and> is_digit e
           \<and> month_text ms \<and> day_text ds
           \<and> valid_date (number_of [a, b, c, e]) (number_of ms) (number_of ds)"
proof -
  from five_or_more[OF assms[unfolded date_token_def]] obtain a b c e h rest where
    tok: "tok = a # b # c # e # h # rest" and
    dg: "is_digit a" "is_digit b" "is_digit c" "is_digit e" "h = CHR ''-''" and
    more: "let ms = takeWhile (\<lambda>x. x \<noteq> CHR ''-'') rest; ds = drop (Suc (length ms)) rest
             in length ms < length rest \<and> month_text ms \<and> day_text ds
                \<and> valid_date (number_of [a, b, c, e]) (number_of ms) (number_of ds)"
    by blast
  define ms where "ms = takeWhile (\<lambda>x. x \<noteq> CHR ''-'') rest"
  define ds where "ds = drop (Suc (length ms)) rest"
  define tl_part where "tl_part = dropWhile (\<lambda>x. x \<noteq> CHR ''-'') rest"
  from more have p: "length ms < length rest" "month_text ms" "day_text ds"
    "valid_date (number_of [a, b, c, e]) (number_of ms) (number_of ds)"
    unfolding ms_def ds_def Let_def by blast+
  have split: "rest = ms @ tl_part"
    unfolding ms_def tl_part_def by simp
  with p(1) have ne: "tl_part \<noteq> []" by auto
  then have "hd tl_part = CHR ''-''"
    unfolding tl_part_def using hd_dropWhile[of "\<lambda>x. x \<noteq> CHR ''-''" rest] by blast
  with ne have "tl_part = CHR ''-'' # tl tl_part" by (cases tl_part) auto
  with split have r: "rest = ms @ CHR ''-'' # tl tl_part" by simp
  then have "ds = tl tl_part"
    unfolding ds_def by (subst r) simp
  with r have "rest = ms @ CHR ''-'' # ds" by simp
  with tok dg p show ?thesis by blast
qed

lemma rx_Y_first:
  assumes "is_digit a" "is_digit b" "is_digit c" "is_digit e"
  shows "rx_Y (a # b # c # e # r) = [(number_of [a, b, c, e], r)]"
  using assms by (simp add: number_of_def digit_not_blank)

lemma date_token_strptime_Ymd:
  assumes "date_token tok"
  shows "\<exists>ymd. strptime_Ymd tok = Inr ymd"
proof -
  from date_token_parts[OF assms] obtain a b c e ms ds where
    tok: "tok = a # b # c # e # CHR ''-'' # ms @ CHR ''-'' # ds" and
    dg: "is_digit a" "is_digit b" "is_digit c" "is_digit e" and
    p: "month_text ms" "day_text ds"
       "valid_date (number_of [a, b, c, e]) (number_of ms) (number_of ds)"
    by blast
  from rx_m_first[OF p(1), of ds] obtain more1 where
    m1: "rx_m (ms @ CHR ''-'' # ds) = (number_of ms, CHR ''-'' # ds) # more1" by blast
  from rx_d_first[OF p(2)] obtain more2 where
    m2: "rx_d ds = (number_of ds, []) # more2" by blast
  have y: "rx_Y tok = [(number_of [a, b, c, e], CHR ''-'' # ms @ CHR ''-'' # ds)]"
    unfolding tok by (rule rx_Y_first[OF dg])
  have "\<exists>more. match_Ymd tok = ((number_of [a, b, c, e], number_of ms, number_of ds), []) # more"
    unfolding match_Ymd_def y by (simp add: m1 m2)
  with p(3) show ?thesis
    unfolding strptime_Ymd_def by auto
qed

lemma strptime_Ymd_iff: "(\<exists>ymd. strptime_Ymd tok = Inr ymd) \<longleftrightarrow> date_token tok"
  using strptime_Ymd_date_token date_token_strptime_Ymd by blast

section \<open>Facts about folders and charts\<close>

lemma experiment_date_None:
  "list_all (\<lambda>name. \<not> names_a_date name) names \<Longrightarrow> experiment_date names = None"
proof (induction names)
  case Nil
  then show ?case by simp
next
  case (Cons name names)
  then have "\<not> date_token (split_first CHR ''_'' name)" by (simp add: names_a_date_def)
  then have "\<nexists>ymd. strptime_Ymd (split_first CHR ''_'' name) = Inr ymd"
    using strptime_Ymd_date_token by blast
  then obtain e where "strptime_Ymd (split_first CHR ''_'' name) = Inl e"
    by (cases "strptime_Ymd (split_first CHR ''_'' name)") auto
  with Cons show ?case by (simp add: Let_def)
qed

lemma glob_star_subset: "set (glob_star ending fd) \<subseteq> set (map fst (entries fd))"
  by (auto simp: glob_star_def)

lemma place_boxes_eq:
  "place_boxes lo hi anns level =
     map (\<lambda>(level, a). (an_time a, an_text a, level))
       (enumerate level (filter (\<lambda>a. lo \<le> an_time a \<and> an_time a \<le> hi) anns))"
  by (induction anns arbitrary: level) simp_all

lemma no_nat_iff: "list_all (\<lambda>point. fst point \<noteq> None) df \<longleftrightarrow> \<not> list_ex (\<lambda>point. fst point = None) df"
  by (simp add: list_all_iff list_ex_iff)

lemma plot_chart:
  assumes "est_times df \<noteq> []" and "list_all (\<lambda>point. fst point \<noteq> None) df"
  shows "\<exists>ch. plot_and_save_signal signal df schedule_data cmap = Inr (Some ch)
           \<and> chart_line ch = df
           \<and> chart_xlim ch = (Min (set (est_times df)), Max (set (est_times df)))
           \<and> chart_boxes ch = boxes_in_range (fst (chart_xlim ch)) (snd (chart_xlim ch)) (shared_annotations schedule_data)
           \<and> chart_span ch = (case schedule_data of None \<Rightarrow> None
                               | Some sd \<Rightarrow> (case (music_start sd, music_end sd) of (Some a, Some b) \<Rightarrow> Some (a, b) | _ \<Rightarrow> None))"
proof -
  from assms(1) obtain t ts where t: "est_times df = t # ts" by (cases "est_times df") auto
  have "fold min ts t = Min (set (t # ts))" "fold max ts t = Max (set (t # ts))"
    by (simp_all only: Min.set_eq_fold Max.set_eq_fold)
  with t assms(2) show ?thesis
    unfolding plot_and_save_signal_def boxes_in_range_def shared_annotations_def no_nat_iff
    by (simp add: Let_def place_boxes_eq split: option.splits)
qed

lemma plot_skipped: "est_times df = [] \<Longrightarrow> plot_and_save_signal signal df schedule_data cmap = Inr None"
  by (simp add: plot_and_save_signal_def)

lemma plot_raises:
  assumes "\<not> complete_series df"
  shows "plot_and_save_signal signal df schedule_data cmap = Inl TypeError"
  using assms unfolding complete_series_def plot_and_save_signal_def no_nat_iff
  by (auto split: list.splits)

lemma plain_chart_without_schedule:
  assumes "plot_and_save_signal signal df None cmap = Inr (Some ch)"
  shows "chart_boxes ch = [] \<and> chart_span ch = None \<and> chart_lines ch = 0"
  using assms unfolding plot_and_save_signal_def
  by (auto simp: Let_def split: list.splits if_splits)

lemma save_plots_complete:
  assumes "list_all (\<lambda>(signal, df). complete_series df) data"
  shows "\<exists>charts. save_plots data schedule_data = Inr charts
           \<and> list_all2
               (\<lambda>(signal, df) ch.
                    chart_line ch = df
                  \<and> chart_xlim ch = (Min (set (est_times df)), Max (set (est_times df)))
                  \<and> chart_boxes ch = boxes_in_range (fst (chart_xlim ch)) (snd (chart_xlim ch))
                                       (shared_annotations schedule_data))
               (filter (\<lambda>(signal, df). est_times df \<noteq> []) data) charts"
  using assms
proof (induction data)
  case Nil
  then show ?case by simp
next
  case (Cons x data)
  obtain signal df where x: "x = (signal, df)" by (cases x)
  from Cons.prems x have c: "complete_series df" and rest: "list_all (\<lambda>(signal, df). complete_series df) data"
    by simp_all
  from Cons.IH[OF rest] obtain charts where
    ih: "save_plots data schedule_data = Inr charts"
        "list_all2
               (\<lambda>(signal, df) ch.
                    chart_line ch = df
                  \<and> chart_xlim ch = (Min (set (est_times df)), Max (set (est_times df)))
                  \<and> chart_boxes ch = boxes_in_range (fst (chart_xlim ch)) (snd (chart_xlim ch))
                                       (shared_annotations schedule_data))
               (filter (\<lambda>(signal, df). est_times df \<noteq> []) data) charts"
    by blast
  show ?case
  proof (cases "est_times df = []")
    case True
    with ih x show ?thesis by (simp add: plot_skipped)
  next
    case False
    with c have "list_all (\<lambda>point. fst point \<noteq> None) df" by (simp add: complete_series_def)
    from plot_chart[OF False this, of signal schedule_data CHANNELS] obtain ch where
      "plot_and_save_signal signal df schedule_data CHANNELS = Inr (Some ch)"
      "chart_line ch = df"
      "chart_xlim ch = (Min (set (est_times df)), Max (set (est_times df)))"
      "chart_boxes ch = boxes_in_range (fst (chart_xlim ch)) (snd (chart_xlim ch)) (shared_annotations schedule_data)"
      by blast
    with ih x False show ?thesis by simp
  qed
qed

lemma save_plots_returns:
  assumes "save_plots data schedule_data = Inr charts"
  shows "list_all (\<lambda>(signal, df). complete_series df) data"
  using assms
proof (induction data arbitrary: charts)
  case Nil
  then show ?case by simp
next
  case (Cons x data)
  obtain signal df where x: "x = (signal, df)" by (cases x)
  have c: "complete_series df"
  proof (rule ccontr)
    assume "\<not> complete_series df"
    from plot_raises[OF this, of signal schedule_data CHANNELS] Cons.prems x show False by simp
  qed
  from Cons.prems x obtain rest where "save_plots data schedule_data = Inr rest"
    by (auto split: sum.splits option.splits)
  from Cons.IH[OF this] c x show ?case by simp
qed

lemma glob_star_found:
  assumes "glob_star ending fd = path # others"
  shows "is_dir fd \<and> map_of (entries fd) path \<noteq> None"
proof -
  from assms have d: "is_dir fd" by (auto simp: glob_star_def split: if_splits)
  from assms have "path \<in> set (glob_star ending fd)" by simp
  with glob_star_subset[of ending fd] have "path \<in> fst ` set (entries fd)" by auto
  then have "map_of (entries fd) path \<noteq> None" by (simp add: map_of_eq_None_iff)
  with d show ?thesis by simp
qed

lemma series_with_gap_raises: "process_folder demo_eastern gap_folder = Inl TypeError"
  by code_simp

section \<open>Channels and charts of a folder\<close>

text \<open>
  C8, as amended. When no file name of the folder starts, before its first underscore, with
  a date as \<open>%Y-%m-%d\<close> lets it be written (month and day with or without a leading
  zero, or the day after a blank, and a day of the calendar), \<open>load_emotibit_data\<close>
  returns no channel and no date, whatever the channel files hold, and
  \<open>process_folder\<close> saves no chart. These texts are exactly the ones the program's
  \<open>strptime\<close> accepts (lemma \<open>strptime_Ymd_iff\<close>).
\<close>

theorem no_dated_name_no_channels:
  assumes "list_all (\<lambda>name. \<not> names_a_date name) (map fst (entries fd))"
  shows "load_emotibit_data fd signals_to_plot = ([], None)
         \<and> (process_folder eastern fd = Inr [] \<or> process_folder eastern fd = Inl IndexError)"
proof -
  have "list_all (\<lambda>name. \<not> names_a_date name) (glob_star ''.csv'' fd)"
    using assms glob_star_subset[of "''.csv''" fd] by (auto simp: list_all_iff)
  then have "experiment_date (glob_star ''.csv'' fd) = None"
    by (rule experiment_date_None)
  then have l: "load_emotibit_data fd signals_to_plot = ([], None)" for signals_to_plot
    by (simp add: load_emotibit_data_def Let_def falsy_def)
  have "process_folder eastern fd = Inr [] \<or> process_folder eastern fd = Inl IndexError"
    unfolding process_folder_def l by (simp add: falsy_def split: list.splits)
  with l show ?thesis by simp
qed

theorem no_dated_name_no_channels_witness:
  "list_all (\<lambda>name. \<not> names_a_date name) (map fst (entries undated_folder))
   \<and> load_emotibit_data undated_folder SIGNALS_TO_PLOT = ([], None)
   \<and> process_folder demo_eastern undated_folder = Inr []"
proof -
  have h: "list_all (\<lambda>name. \<not> names_a_date name) (map fst (entries undated_folder))" by code_simp
  have p: "process_folder demo_eastern undated_folder = Inr []" by code_simp
  from no_dated_name_no_channels[OF h, of SIGNALS_TO_PLOT demo_eastern] h p show ?thesis by simp
qed

text \<open>
  The claim as the specification words it fails on the folder whose only channel file is
  \<open>2024-1-15_HR.csv\<close>: no file name starts with an ISO date YYYY-MM-DD, and the
  channel HR is loaded, with the date text 2024115.
\<close>

theorem unpadded_date_counterexample:
  "\<not> list_ex starts_with_iso_date (map fst (entries unpadded_folder))
   \<and> \<not> list_ex iso_date (map (split_first CHR ''_'') (map fst (entries unpadded_folder)))
   \<and> load_emotibit_data unpadded_folder SIGNALS_TO_PLOT = ([(''HR'', hr_series)], Some ''2024115'')"
  by code_simp

text \<open>
  C9. In a folder with a schedule file and a date, \<open>process_folder\<close> returns its charts
  exactly when no loaded channel holds a NaT beside instants (the plot of such a channel
  raises). When it returns, there is one chart for each loaded channel that has an
  instant. The horizontal limits of a chart are the least and the greatest instant of its
  channel, and its boxes are the annotations of the one list the loader returned whose
  instant lies within these limits, in the order of the list, each at its own instant and
  with stagger levels 0, 1, 2 and so on. An annotation outside the limits is left out of
  that chart and moved nowhere, and every chart is cut from the same full list.
\<close>

theorem boxes_only_inside_channel_range:
  assumes "glob_star '' Combined Observations.csv'' fd = path # others"
    and "load_emotibit_data fd SIGNALS_TO_PLOT = (data, Some date_str)"
    and "date_str \<noteq> []"
    and "load_music_schedule eastern (map_of (entries fd) path) date_str (folder_path fd) = Inr schedule_data"
  shows "(list_all (\<lambda>(signal, df). complete_series df) data
            \<longleftrightarrow> (\<exists>charts. process_folder eastern fd = Inr charts))
         \<and> (\<forall>charts. process_folder eastern fd = Inr charts \<longrightarrow>
              list_all2
                (\<lambda>(signal, df) ch.
                     chart_line ch = df
                   \<and> chart_xlim ch = (Min (set (est_times df)), Max (set (est_times df)))
                   \<and> chart_boxes ch = boxes_in_range (fst (chart_xlim ch)) (snd (chart_xlim ch))
                                        (shared_annotations schedule_data))
                (filter (\<lambda>(signal, df). est_times df \<noteq> []) data) charts)"
proof -
  from glob_star_found[OF assms(1)] have g: "is_dir fd" "map_of (entries fd) path \<noteq> None" by auto
  have pf: "process_folder eastern fd = save_plots data schedule_data"
    unfolding process_folder_def assms(1) using g assms(2,3,4)
    by (cases data) (auto simp: falsy_def)
  show ?thesis
    unfolding pf using save_plots_complete[of data schedule_data] save_plots_returns[of data schedule_data]
    by auto
qed

theorem boxes_only_inside_channel_range_witness:
  "process_folder demo_eastern demo_folder = Inr [t1_chart, hr_chart]
   \<and> shared_annotations (Some demo_schedule) = demo_annotations
   \<and> chart_boxes t1_chart = boxes_in_range 32500 33000 demo_annotations
   \<and> chart_boxes hr_chart = boxes_in_range 32400 32760 demo_annotations
   \<and> map fst (chart_boxes t1_chart) = [32700, 32820, 33000]
   \<and> map fst (chart_boxes hr_chart) = [32400, 32700]
   \<and> map an_time demo_annotations = [32400, 32700, 32820, 33000, 33120]"
proof -
  have g: "glob_star '' Combined Observations.csv'' demo_folder = ''P01 Combined Observations.csv'' # []"
    by code_simp
  have d: "load_emotibit_data demo_folder SIGNALS_TO_PLOT = ([(''T1'', t1_series), (''HR'', hr_series)], Some ''20240105'')"
    by code_simp
  have n: "''20240105'' \<noteq> []" by simp
  have l: "load_music_schedule demo_eastern (map_of (entries demo_folder) ''P01 Combined Observations.csv'')
             ''20240105'' (folder_path demo_folder) = Inr (Some demo_schedule)"
    by code_simp
  have p: "process_folder demo_eastern demo_folder = Inr [t1_chart, hr_chart]" by code_simp
  have x: "chart_xlim t1_chart = (32500, 33000)" "chart_xlim hr_chart = (32400, 32760)"
    by (simp_all add: t1_chart_def hr_chart_def)
  have v: "map fst (chart_boxes t1_chart) = [32700, 32820, 33000]" "map fst (chart_boxes hr_chart) = [32400, 32700]"
    by (simp_all add: t1_chart_def hr_chart_def)
  have s: "shared_annotations (Some demo_schedule) = demo_annotations"
    by (simp add: shared_annotations_def demo_schedule_def)
  have a: "map an_time demo_annotations = [32400, 32700, 32820, 33000, 33120]"
    by (simp add: demo_annotations_def)
  from boxes_only_inside_channel_range[OF g d n l] p
  have "list_all2
               (\<lambda>(signal, df) ch.
                    chart_line ch = df
                  \<and> chart_xlim ch = (Min (set (est_times df)), Max (set (est_times df)))
                  \<and> chart_boxes ch = boxes_in_range (fst (chart_xlim ch)) (snd (chart_xlim ch))
                                       (shared_annotations (Some demo_schedule)))
               (filter (\<lambda>(signal, df). est_times df \<noteq> []) [(''T1'', t1_series), (''HR'', hr_series)])
               [t1_chart, hr_chart]"
    by blast
  moreover have "est_times t1_series \<noteq> []" "est_times hr_series \<noteq> []" by code_simp+
  ultimately have "chart_boxes t1_chart = boxes_in_range (fst (chart_xlim t1_chart)) (snd (chart_xlim t1_chart)) (shared_annotations (Some demo_schedule))"
    "chart_boxes hr_chart = boxes_in_range (fst (chart_xlim hr_chart)) (snd (chart_xlim hr_chart)) (shared_annotations (Some demo_schedule))"
    by simp_all
  with p s x v a show ?thesis by simp
qed

text \<open>
  C1. In a folder with no file whose name ends in \<open> Combined Observations.csv\<close>, the
  index \<open>[0]\<close> of line 263 raises \<open>IndexError\<close>: \<open>process_folder\<close> saves no chart,
  whatever channels the folder holds, and the loop over the folders stops there.
\<close>

theorem missing_schedule_file_raises:
  assumes "glob_star '' Combined Observations.csv'' fd = []"
  shows "process_folder eastern fd = Inl IndexError
         \<and> run_batch eastern (fd # rest) = ([], Some IndexError)"
  using assms by (simp add: process_folder_def)

theorem missing_schedule_file_raises_witness:
  "glob_star '' Combined Observations.csv'' no_schedule_folder = []
   \<and> load_emotibit_data no_schedule_folder SIGNALS_TO_PLOT = ([(''T1'', t1_series), (''HR'', hr_series)], Some ''20240105'')
   \<and> process_folder demo_eastern no_schedule_folder = Inl IndexError
   \<and> run_batch demo_eastern [no_schedule_folder, demo_folder] = ([], Some IndexError)
   \<and> run_batch demo_eastern [demo_folder] = ([[t1_chart, hr_chart]], None)"
proof -
  have g: "glob_star '' Combined Observations.csv'' no_schedule_folder = []" by code_simp
  have d: "load_emotibit_data no_schedule_folder SIGNALS_TO_PLOT = ([(''T1'', t1_series), (''HR'', hr_series)], Some ''20240105'')"
    by code_simp
  have r: "run_batch demo_eastern [demo_folder] = ([[t1_chart, hr_chart]], None)" by code_simp
  from missing_schedule_file_raises[OF g, of demo_eastern "[demo_folder]"] g d r show ?thesis by simp
qed

end
